theory Spec2Isabelle
  imports Complex_Main "HOL-Library.Monad_Syntax"
begin

section \<open>Data model of \<open>game.py\<close>\<close>

text \<open>
  The seven colour constants that \<open>TETROMINO_COLORS\<close> holds. In the source a colour is an
  RGB tuple; the simulation only stores it in the grid and tests it for truth, and every
  non-empty tuple is true.
\<close>

datatype color = CYAN | YELLOW | MAGENTA | ORANGE | BLUE | GREEN | RED

text \<open>
  A grid cell is either the integer \<open>0\<close> of the source (\<open>None\<close> here) or a colour.
  The grid is a list of rows, row \<open>0\<close> on top.
\<close>

type_synonym cell = "color option"
type_synonym grid = "cell list list"
type_synonym shape = "int list list"

definition GRID_WIDTH :: nat where
  "GRID_WIDTH = 10"

definition GRID_HEIGHT :: nat where
  "GRID_HEIGHT = 20"

definition TETROMINOS :: "shape list" where
  "TETROMINOS =
    [ [[1, 1, 1, 1]],
      [[1, 1], [1, 1]],
      [[1, 1, 1], [0, 1, 0]],
      [[1, 1, 1], [1, 0, 0]],
      [[1, 1, 1], [0, 0, 1]],
      [[1, 1, 0], [0, 1, 1]],
      [[0, 1, 1], [1, 1, 0]] ]"

definition TETROMINO_COLORS :: "color list" where
  "TETROMINO_COLORS = [CYAN, YELLOW, MAGENTA, ORANGE, BLUE, GREEN, RED]"

text \<open>
  Class \<open>Tetromino\<close>. The fields \<open>x\<close> and \<open>y\<close> of the source are \<open>pos_x\<close> and
  \<open>pos_y\<close> here, since a record field is a constant and would capture the variables
  \<open>x\<close> and \<open>y\<close> of every later statement.
\<close>

record tetromino =
  pos_x :: int
  pos_y :: int
  shape :: shape
  color :: color
  rotation :: nat

text \<open>
  The constructor \<open>Tetromino(x, y, shape_idx)\<close>. Every call in the source passes
  \<open>random.randint(0, len(TETROMINOS) - 1)\<close>; the random draw is an argument \<open>k\<close> of the
  model, and \<open>k mod 7\<close> takes exactly the values the draw can take.
\<close>

definition randint_shape :: "nat \<Rightarrow> nat" where
  "randint_shape k = k mod length TETROMINOS"

definition Tetromino :: "int \<Rightarrow> int \<Rightarrow> nat \<Rightarrow> tetromino" where
  "Tetromino x y shape_idx =
     \<lparr>pos_x = x, pos_y = y, shape = TETROMINOS ! shape_idx,
      color = TETROMINO_COLORS ! shape_idx, rotation = 0\<rparr>"

subsection \<open>\<open>Tetromino.rotate\<close>\<close>

text \<open>
  The two nested loops of \<open>rotate\<close>, written as they run: \<open>rotated\<close> starts as
  \<open>cols\<close> rows of \<open>rows\<close> zeros, and the step for \<open>(r, c)\<close> stores
  \<open>shape[r][c]\<close> at \<open>rotated[c][rows - 1 - r]\<close>. The result \<open>None\<close> stands for the
  \<open>IndexError\<close> the source raises: at \<open>len(self.shape[0])\<close> when the shape has no
  row, and at \<open>self.shape[r][c]\<close> when row \<open>r\<close> is shorter than the first row. The
  writes are in range by construction of \<open>rotated\<close>.
\<close>

fun rotate_cols :: "nat \<Rightarrow> nat \<Rightarrow> int list \<Rightarrow> nat list \<Rightarrow> shape \<Rightarrow> shape option" where
  "rotate_cols rows r row [] rotated = Some rotated"
| "rotate_cols rows r row (c # cs) rotated =
     (if c < length row
      then rotate_cols rows r row cs (rotated[c := (rotated ! c)[rows - 1 - r := row ! c]])
      else None)"

fun rotate_rows :: "nat \<Rightarrow> nat \<Rightarrow> shape \<Rightarrow> nat list \<Rightarrow> shape \<Rightarrow> shape option" where
  "rotate_rows rows cols sh [] rotated = Some rotated"
| "rotate_rows rows cols sh (r # rs) rotated =
     (case rotate_cols rows r (sh ! r) [0..<cols] rotated of
        None \<Rightarrow> None
      | Some rotated' \<Rightarrow> rotate_rows rows cols sh rs rotated')"

definition rotate_shape :: "shape \<Rightarrow> shape option" where
  "rotate_shape sh =
     (case sh of
        [] \<Rightarrow> None
      | row0 # _ \<Rightarrow>
          (let rows = length sh; cols = length row0
           in rotate_rows rows cols sh [0..<rows] (replicate cols (replicate rows 0))))"

text \<open>
  The method \<open>rotate\<close> itself; it is \<open>rotate_tetromino\<close> here, the name \<open>rotate\<close>
  being a list function of the library.
\<close>

definition rotate_tetromino :: "tetromino \<Rightarrow> tetromino option" where
  "rotate_tetromino p = map_option (\<lambda>sh. p\<lparr>shape := sh\<rparr>) (rotate_shape (shape p))"

subsection \<open>\<open>Tetromino.get_positions\<close>\<close>

text \<open>
  The inner loop over \<open>c\<close> appends \<open>(x + c, y + r)\<close> for every true cell of row \<open>r\<close>;
  reading a cell beyond the end of a short row raises \<open>IndexError\<close> (\<open>None\<close>). With no
  row at all the outer loop does not run and \<open>self.shape[0]\<close> is never evaluated.
\<close>

fun row_positions :: "int \<Rightarrow> int \<Rightarrow> int list \<Rightarrow> nat \<Rightarrow> nat list \<Rightarrow> (int \<times> int) list option" where
  "row_positions x y row r [] = Some []"
| "row_positions x y row r (c # cs) =
     (if c < length row
      then (case row_positions x y row r cs of
              None \<Rightarrow> None
            | Some ps \<Rightarrow> Some (if row ! c \<noteq> 0 then (x + int c, y + int r) # ps else ps))
      else None)"

fun rows_positions :: "int \<Rightarrow> int \<Rightarrow> shape \<Rightarrow> nat \<Rightarrow> nat list \<Rightarrow> (int \<times> int) list option" where
  "rows_positions x y sh cols [] = Some []"
| "rows_positions x y sh cols (r # rs) =
     (case row_positions x y (sh ! r) r [0..<cols] of
        None \<Rightarrow> None
      | Some ps \<Rightarrow>
          (case rows_positions x y sh cols rs of
             None \<Rightarrow> None
           | Some qs \<Rightarrow> Some (ps @ qs)))"

definition get_positions :: "tetromino \<Rightarrow> (int \<times> int) list option" where
  "get_positions p =
     (case shape p of
        [] \<Rightarrow> Some []
      | row0 # _ \<Rightarrow> rows_positions (pos_x p) (pos_y p) (shape p) (length row0) [0..<length (shape p)])"

section \<open>Class \<open>TetrisGame\<close>\<close>

text \<open>
  The fields of the game object that the simulation reads and writes. The display, the
  fonts and the particle list belong to the presentation: no field below depends on
  them, and the particle effects of \<open>finish_line_clear\<close> and \<open>update\<close> are left out.
  Times are floats in the source (\<open>dt\<close> is a float); a float is a real number, and
  the timers are real numbers here. The float addition that advances them is an
  argument of the model (see \<open>update\<close> below).
\<close>

record game =
  grid :: grid
  current_piece :: "tetromino option"
  next_piece :: "tetromino option"
  score :: int
  lines_cleared :: int
  level :: int
  game_over :: bool
  paused :: bool
  fall_time :: real
  fall_speed :: int
  random_block_time :: real
  random_block_interval :: int
  random_blocks_enabled :: bool
  lines_clearing :: "nat list"
  clear_animation_time :: real
  clear_animation_duration :: int

subsection \<open>Reading and writing the grid\<close>

text \<open>
  \<open>self.grid[y][x]\<close> with non-negative indices: outside the lists the source raises
  \<open>IndexError\<close>, which is \<open>None\<close> here. Every index the source uses on the grid is
  non-negative where it is used (the guards of \<open>is_valid_position\<close> and
  \<open>place_piece\<close>, the \<open>range\<close> loops elsewhere), so Python's negative indexing never
  applies.
\<close>

definition grid_get :: "grid \<Rightarrow> nat \<Rightarrow> nat \<Rightarrow> cell option" where
  "grid_get g y x = (if y < length g \<and> x < length (g ! y) then Some (g ! y ! x) else None)"

definition grid_set :: "grid \<Rightarrow> nat \<Rightarrow> nat \<Rightarrow> cell \<Rightarrow> grid option" where
  "grid_set g y x v =
     (if y < length g \<and> x < length (g ! y) then Some (g[y := (g ! y)[x := v]]) else None)"

subsection \<open>\<open>is_valid_position\<close>\<close>

text \<open>
  The loop over the positions, with its early \<open>return False\<close>. The grid is read only
  after the three bound tests failed and \<open>y >= 0\<close> held, as \<open>or\<close> and \<open>and\<close>
  evaluate left to right.
\<close>

fun valid_cells :: "grid \<Rightarrow> (int \<times> int) list \<Rightarrow> bool option" where
  "valid_cells g [] = Some True"
| "valid_cells g ((x, y) # ps) =
     (if x < 0 \<or> x \<ge> int GRID_WIDTH \<or> y \<ge> int GRID_HEIGHT then Some False
      else if y \<ge> 0
      then (case grid_get g (nat y) (nat x) of
              None \<Rightarrow> None
            | Some c \<Rightarrow> if c \<noteq> None then Some False else valid_cells g ps)
      else valid_cells g ps)"

definition is_valid_position :: "grid \<Rightarrow> tetromino \<Rightarrow> bool option" where
  "is_valid_position g piece =
     (case get_positions piece of None \<Rightarrow> None | Some ps \<Rightarrow> valid_cells g ps)"

subsection \<open>\<open>spawn_new_piece\<close>\<close>

text \<open>The argument \<open>k\<close> is the random draw of the shape index.\<close>

definition spawn_new_piece :: "nat \<Rightarrow> game \<Rightarrow> game option" where
  "spawn_new_piece k s =
     (case next_piece s of
        None \<Rightarrow>
          Some (s\<lparr>next_piece := Some (Tetromino (int (GRID_WIDTH div 2) - 1) 0 (randint_shape k))\<rparr>)
      | Some np \<Rightarrow>
          (let s1 = s\<lparr>current_piece := Some np,
                      next_piece := Some (Tetromino (int (GRID_WIDTH div 2) - 1) 0 (randint_shape k))\<rparr>
           in case is_valid_position (grid s1) np of
                None \<Rightarrow> None
              | Some ok \<Rightarrow> Some (if \<not> ok then s1\<lparr>game_over := True\<rparr> else s1)))"

subsection \<open>\<open>finish_line_clear\<close> and \<open>clear_lines\<close>\<close>

text \<open>
  The loop \<open>for y in sorted(self.lines_clearing, reverse=True)\<close>: \<open>del self.grid[y]\<close>
  raises \<open>IndexError\<close> when \<open>y\<close> is not an index of the grid, then an empty row is
  inserted at index \<open>0\<close>, before the next \<open>y\<close> is taken.
\<close>

fun delete_rows :: "nat list \<Rightarrow> grid \<Rightarrow> grid option" where
  "delete_rows [] g = Some g"
| "delete_rows (y # ys) g =
     (if y < length g
      then delete_rows ys (replicate GRID_WIDTH None # (take y g @ drop (Suc y) g))
      else None)"

definition finish_line_clear :: "game \<Rightarrow> game option" where
  "finish_line_clear s =
     (if lines_clearing s = [] then Some s
      else
        (case delete_rows (rev (sort (lines_clearing s))) (grid s) of
           None \<Rightarrow> None
         | Some g \<Rightarrow>
            (let lines_count = int (length (lines_clearing s));
                 lines_cleared' = lines_cleared s + lines_count;
                 score' = score s + lines_count * 100 * level s;
                 level' = lines_cleared' div 10 + 1
             in Some (s\<lparr>grid := g,
                        lines_cleared := lines_cleared',
                        score := score',
                        level := level',
                        fall_speed := max 100 (1000 - (level' - 1) * 100),
                        lines_clearing := [],
                        clear_animation_time := 0\<rparr>))))"

text \<open>
  The scan \<open>for y in range(GRID_HEIGHT): if all(self.grid[y])\<close>; \<open>self.grid[y]\<close> raises
  when the grid has fewer rows.
\<close>

fun full_rows :: "grid \<Rightarrow> nat list \<Rightarrow> nat list option" where
  "full_rows g [] = Some []"
| "full_rows g (y # ys) =
     (if y < length g
      then (case full_rows g ys of
              None \<Rightarrow> None
            | Some ls \<Rightarrow> Some (if list_all (\<lambda>c. c \<noteq> None) (g ! y) then y # ls else ls))
      else None)"

definition clear_lines :: "game \<Rightarrow> game option" where
  "clear_lines s =
     (case full_rows (grid s) [0..<GRID_HEIGHT] of
        None \<Rightarrow> None
      | Some lines_to_clear \<Rightarrow>
          if lines_to_clear \<noteq> []
          then Some (s\<lparr>lines_clearing := lines_to_clear, clear_animation_time := 0\<rparr>)
          else finish_line_clear s)"

subsection \<open>\<open>place_piece\<close>\<close>

text \<open>
  The guarded writes \<open>self.grid[y][x] = self.current_piece.color\<close>, then
  \<open>clear_lines\<close> and \<open>spawn_new_piece\<close>. Without a current piece the source raises
  \<open>AttributeError\<close> at \<open>self.current_piece.get_positions()\<close>.
\<close>

fun write_cells :: "color \<Rightarrow> (int \<times> int) list \<Rightarrow> grid \<Rightarrow> grid option" where
  "write_cells col [] g = Some g"
| "write_cells col ((x, y) # ps) g =
     (if 0 \<le> y \<and> y < int GRID_HEIGHT \<and> 0 \<le> x \<and> x < int GRID_WIDTH
      then (case grid_set g (nat y) (nat x) (Some col) of
              None \<Rightarrow> None
            | Some g' \<Rightarrow> write_cells col ps g')
      else write_cells col ps g)"

definition place_piece :: "nat \<Rightarrow> game \<Rightarrow> game option" where
  "place_piece k s =
     (case current_piece s of
        None \<Rightarrow> None
      | Some p \<Rightarrow>
          (case get_positions p of
             None \<Rightarrow> None
           | Some ps \<Rightarrow>
               (case write_cells (color p) ps (grid s) of
                  None \<Rightarrow> None
                | Some g \<Rightarrow>
                    (case clear_lines (s\<lparr>grid := g\<rparr>) of
                       None \<Rightarrow> None
                     | Some s1 \<Rightarrow> spawn_new_piece k s1))))"

subsection \<open>\<open>move_piece\<close>, \<open>rotate_piece\<close>, \<open>hard_drop\<close>\<close>

text \<open>
  \<open>move_piece\<close> returns the success flag together with the new state; \<open>k\<close> is the random
  draw of the spawn that a placement makes.
\<close>

definition move_piece :: "int \<Rightarrow> int \<Rightarrow> nat \<Rightarrow> game \<Rightarrow> (bool \<times> game) option" where
  "move_piece dx dy k s =
     (case current_piece s of
        None \<Rightarrow> Some (False, s)
      | Some p \<Rightarrow>
          (let old_x = pos_x p; old_y = pos_y p;
               p1 = p\<lparr>pos_x := pos_x p + dx, pos_y := pos_y p + dy\<rparr>
           in case is_valid_position (grid s) p1 of
                None \<Rightarrow> None
              | Some ok \<Rightarrow>
                  if \<not> ok
                  then (let s1 = s\<lparr>current_piece := Some (p1\<lparr>pos_x := old_x, pos_y := old_y\<rparr>)\<rparr>
                        in if dy > 0
                           then (case place_piece k s1 of
                                   None \<Rightarrow> None
                                 | Some s2 \<Rightarrow> Some (False, s2))
                           else Some (False, s1))
                  else Some (True, s\<lparr>current_piece := Some p1\<rparr>)))"

definition rotate_piece :: "game \<Rightarrow> game option" where
  "rotate_piece s =
     (case current_piece s of
        None \<Rightarrow> Some s
      | Some p \<Rightarrow>
          (let old_shape = shape p
           in case rotate_tetromino p of
                None \<Rightarrow> None
              | Some p1 \<Rightarrow>
                  (case is_valid_position (grid s) p1 of
                     None \<Rightarrow> None
                   | Some ok \<Rightarrow>
                       Some (if \<not> ok then s\<lparr>current_piece := Some (p1\<lparr>shape := old_shape\<rparr>)\<rparr>
                             else s\<lparr>current_piece := Some p1\<rparr>))))"

text \<open>
  The loop \<open>while self.move_piece(0, 1): pass\<close> has no bound of its own, so it is a
  partial function: \<open>None\<close> is the loop that never ends (or the exception of
  \<open>move_piece\<close>). Only the last, failing move places the piece and draws \<open>k\<close>.
\<close>

partial_function (option) hard_drop :: "nat \<Rightarrow> game \<Rightarrow> game option" where
  "hard_drop k s =
     (case move_piece 0 1 k s of
        None \<Rightarrow> None
      | Some r \<Rightarrow> if fst r then hard_drop k (snd r) else Some (snd r))"

declare hard_drop.simps [code]

subsection \<open>\<open>spawn_random_block\<close>\<close>

text \<open>
  The scan of column \<open>x\<close> from the top, with its \<open>break\<close> at the first block;
  \<open>GRID_HEIGHT\<close> when the column is empty.
\<close>

fun highest_block :: "grid \<Rightarrow> nat \<Rightarrow> nat list \<Rightarrow> nat option" where
  "highest_block g x [] = Some GRID_HEIGHT"
| "highest_block g x (y # ys) =
     (case grid_get g y x of
        None \<Rightarrow> None
      | Some c \<Rightarrow> if c \<noteq> None then Some y else highest_block g x ys)"

fun valid_positions :: "grid \<Rightarrow> nat list \<Rightarrow> (nat \<times> nat) list option" where
  "valid_positions g [] = Some []"
| "valid_positions g (x # xs) =
     (case highest_block g x [0..<GRID_HEIGHT] of
        None \<Rightarrow> None
      | Some highest_block_y \<Rightarrow>
          (case valid_positions g xs of
             None \<Rightarrow> None
           | Some ps \<Rightarrow>
               Some (if highest_block_y > 0 then (x, highest_block_y - 1) # ps else ps)))"

text \<open>
  \<open>random.choice(seq)\<close> on a non-empty sequence, the draw being the argument \<open>k\<close>:
  \<open>k mod len(seq)\<close> ranges over all indices of the sequence.
\<close>

definition random_choice :: "nat \<Rightarrow> 'a list \<Rightarrow> 'a" where
  "random_choice k xs = xs ! (k mod length xs)"

definition spawn_random_block :: "nat \<Rightarrow> nat \<Rightarrow> game \<Rightarrow> game option" where
  "spawn_random_block k1 k2 s =
     (case valid_positions (grid s) [0..<GRID_WIDTH] of
        None \<Rightarrow> None
      | Some ps \<Rightarrow>
          if ps \<noteq> []
          then (let pos = random_choice k1 ps;
                    col = random_choice k2 TETROMINO_COLORS
                in case grid_set (grid s) (snd pos) (fst pos) (Some col) of
                     None \<Rightarrow> None
                   | Some g \<Rightarrow> Some (s\<lparr>grid := g\<rparr>))
          else Some s)"

subsection \<open>\<open>update\<close>\<close>

text \<open>
  The random draws one call of \<open>update\<close> (or one key) can make: the shape of the piece a
  placement spawns (for the restart key, the shapes of the two pieces the constructor
  draws: \<open>draw_shape\<close> and \<open>draw_next\<close>), the position and the colour of a random
  block, and the next interval \<open>random.randint(15000, 30000)\<close>.
\<close>

record draws =
  draw_shape :: nat
  draw_next :: nat
  draw_position :: nat
  draw_color :: nat
  draw_interval :: nat

definition randint_interval :: "nat \<Rightarrow> int" where
  "randint_interval k = 15000 + int (k mod 15001)"

text \<open>
  The three parts of \<open>update\<close> after its guard, in the order of the source. The
  three timers are Python floats, and \<open>self.fall_time += dt\<close> is a float addition,
  which rounds. The model takes that addition as its argument \<open>fadd\<close> and assumes
  nothing about it, so what is proved of \<open>update\<close> holds for the rounded sum the
  machine computes as well as for the exact one. The comparison of a float with the
  integer \<open>fall_speed\<close> is exact in Python.
\<close>

definition update_fall :: "(real \<Rightarrow> real \<Rightarrow> real) \<Rightarrow> real \<Rightarrow> draws \<Rightarrow> game \<Rightarrow> game option" where
  "update_fall fadd dt d s =
     (let s1 = s\<lparr>fall_time := fadd (fall_time s) dt\<rparr>
      in if fall_time s1 \<ge> real_of_int (fall_speed s1)
         then (case move_piece 0 1 (draw_shape d) s1 of
                 None \<Rightarrow> None
               | Some r \<Rightarrow> Some ((snd r)\<lparr>fall_time := 0\<rparr>))
         else Some s1)"

definition update_clear :: "(real \<Rightarrow> real \<Rightarrow> real) \<Rightarrow> real \<Rightarrow> game \<Rightarrow> game option" where
  "update_clear fadd dt s =
     (if lines_clearing s \<noteq> []
      then (let s1 = s\<lparr>clear_animation_time := fadd (clear_animation_time s) dt\<rparr>
            in if clear_animation_time s1 \<ge> real_of_int (clear_animation_duration s1)
               then finish_line_clear s1
               else Some s1)
      else Some s)"

definition update_random :: "(real \<Rightarrow> real \<Rightarrow> real) \<Rightarrow> real \<Rightarrow> draws \<Rightarrow> game \<Rightarrow> game option" where
  "update_random fadd dt d s =
     (if random_blocks_enabled s
      then (let s1 = s\<lparr>random_block_time := fadd (random_block_time s) dt\<rparr>
            in if random_block_time s1 \<ge> real_of_int (random_block_interval s1)
               then (case spawn_random_block (draw_position d) (draw_color d) s1 of
                       None \<Rightarrow> None
                     | Some s2 \<Rightarrow>
                         Some (s2\<lparr>random_block_time := 0,
                                  random_block_interval := randint_interval (draw_interval d)\<rparr>))
               else Some s1)
      else Some s)"

definition update :: "(real \<Rightarrow> real \<Rightarrow> real) \<Rightarrow> real \<Rightarrow> draws \<Rightarrow> game \<Rightarrow> game option" where
  "update fadd dt d s =
     (if game_over s \<or> paused s then Some s
      else (case update_fall fadd dt d s of
              None \<Rightarrow> None
            | Some s1 \<Rightarrow>
                (case update_clear fadd dt s1 of
                   None \<Rightarrow> None
                 | Some s2 \<Rightarrow> update_random fadd dt d s2)))"

subsection \<open>\<open>__init__\<close> and \<open>handle_events\<close>\<close>

text \<open>
  The constructor: an empty grid, no piece, then two calls of \<open>spawn_new_piece\<close> with
  the draws \<open>k1\<close> and \<open>k2\<close>; \<open>k3\<close> is the draw of the first random-block interval.
\<close>

definition init_game :: "nat \<Rightarrow> nat \<Rightarrow> nat \<Rightarrow> game option" where
  "init_game k1 k2 k3 =
     (let s0 = \<lparr>grid = replicate GRID_HEIGHT (replicate GRID_WIDTH None),
                current_piece = None,
                next_piece = None,
                score = 0,
                lines_cleared = 0,
                level = 1,
                game_over = False,
                paused = False,
                fall_time = 0,
                fall_speed = 1000,
                random_block_time = 0,
                random_block_interval = randint_interval k3,
                random_blocks_enabled = False,
                lines_clearing = [],
                clear_animation_time = 0,
                clear_animation_duration = 800\<rparr>
      in case spawn_new_piece k1 s0 of
           None \<Rightarrow> None
         | Some s1 \<Rightarrow> spawn_new_piece k2 s1)"

text \<open>
  One \<open>KEYDOWN\<close> event of \<open>handle_events\<close>. \<open>K_other\<close> is any key without a binding. The
  flag that \<open>move_piece\<close> returns is dropped, as in the source.
\<close>

datatype key = K_r | K_p | K_b | K_LEFT | K_RIGHT | K_DOWN | K_UP | K_SPACE | K_other

definition handle_key :: "key \<Rightarrow> draws \<Rightarrow> game \<Rightarrow> game option" where
  "handle_key ky d s =
     (if ky = K_r then init_game (draw_shape d) (draw_next d) (draw_interval d)
      else if ky = K_p then Some (s\<lparr>paused := \<not> paused s\<rparr>)
      else if ky = K_b then Some (s\<lparr>random_blocks_enabled := \<not> random_blocks_enabled s\<rparr>)
      else if \<not> game_over s \<and> \<not> paused s
      then (if ky = K_LEFT then map_option snd (move_piece (- 1) 0 (draw_shape d) s)
            else if ky = K_RIGHT then map_option snd (move_piece 1 0 (draw_shape d) s)
            else if ky = K_DOWN then map_option snd (move_piece 0 1 (draw_shape d) s)
            else if ky = K_UP then rotate_piece s
            else if ky = K_SPACE then hard_drop (draw_shape d) s
            else Some s)
      else Some s)"

text \<open>
  The states of a run: the constructor's result, then any sequence of key events and
  calls of \<open>update\<close> that return (the loop of \<open>run\<close> alternates them; every interleaving
  is allowed here, and every addition \<open>fadd\<close>, the machine's among them).
\<close>

inductive reachable :: "game \<Rightarrow> bool" where
  reach_init: "init_game k1 k2 k3 = Some s \<Longrightarrow> reachable s"
| reach_key: "reachable s \<Longrightarrow> handle_key ky d s = Some s' \<Longrightarrow> reachable s'"
| reach_update: "reachable s \<Longrightarrow> update fadd dt d s = Some s' \<Longrightarrow> reachable s'"

section \<open>Predicates and closed forms used in the statements\<close>

subsection \<open>Shapes\<close>

text \<open>
  A shape the source can handle without \<open>IndexError\<close>: at least one row, at least one
  column, all rows of one length. \<open>rot90\<close> is the closed form of what the loops of
  \<open>rotate\<close> compute on such a shape, and \<open>cell_count\<close> the number of its set cells.
\<close>

definition rect :: "shape \<Rightarrow> bool" where
  "rect sh \<longleftrightarrow> sh \<noteq> [] \<and> hd sh \<noteq> [] \<and> (\<forall>row\<in>set sh. length row = length (hd sh))"

definition rot90 :: "shape \<Rightarrow> shape" where
  "rot90 sh = map (\<lambda>c. map (\<lambda>j. sh ! (length sh - 1 - j) ! c) [0..<length sh]) [0..<length (hd sh)]"

definition cell_count :: "shape \<Rightarrow> nat" where
  "cell_count sh = length (filter (\<lambda>v. v \<noteq> 0) (concat sh))"

subsection \<open>Grids and positions\<close>

text \<open>
  \<open>grid_ok\<close>: 20 rows of 10 cells. \<open>blocked\<close> is the test that \<open>is_valid_position\<close>
  applies to one cell, \<open>cells\<close> the list that \<open>get_positions\<close> returns on a rectangular
  shape, and \<open>valid\<close> the answer of \<open>is_valid_position\<close> on a well-formed grid.
  \<open>lowered p d\<close> is the piece \<open>p\<close> moved down by \<open>d\<close> rows.
\<close>

definition grid_ok :: "grid \<Rightarrow> bool" where
  "grid_ok g \<longleftrightarrow> length g = GRID_HEIGHT \<and> (\<forall>row\<in>set g. length row = GRID_WIDTH)"

definition blocked :: "grid \<Rightarrow> int \<times> int \<Rightarrow> bool" where
  "blocked g q \<longleftrightarrow>
     fst q < 0 \<or> fst q \<ge> 10 \<or> snd q \<ge> 20 \<or> (snd q \<ge> 0 \<and> g ! nat (snd q) ! nat (fst q) \<noteq> None)"

definition cells :: "tetromino \<Rightarrow> (int \<times> int) list" where
  "cells p =
     concat (map (\<lambda>r. map (\<lambda>c. (pos_x p + int c, pos_y p + int r))
                          (filter (\<lambda>c. shape p ! r ! c \<noteq> 0) [0..<length (hd (shape p))]))
                 [0..<length (shape p)])"

definition valid :: "grid \<Rightarrow> tetromino \<Rightarrow> bool" where
  "valid g p \<longleftrightarrow> (\<forall>q\<in>set (cells p). \<not> blocked g q)"

definition lowered :: "tetromino \<Rightarrow> nat \<Rightarrow> tetromino" where
  "lowered p d = p\<lparr>pos_y := pos_y p + int d\<rparr>"

text \<open>
  \<open>written p g g'\<close>: the grid \<open>g'\<close> is \<open>g\<close> with the colour of \<open>p\<close> in exactly those
  cells of the field that \<open>p\<close> occupies; this determines \<open>g'\<close>. \<open>keeps g g'\<close>: no
  occupied cell of \<open>g\<close> is empty in \<open>g'\<close>. \<open>detected g\<close>: the full rows of \<open>g\<close>, in
  ascending order, as the scan of \<open>clear_lines\<close> collects them.
\<close>

definition written :: "tetromino \<Rightarrow> grid \<Rightarrow> grid \<Rightarrow> bool" where
  "written p g g' \<longleftrightarrow>
     grid_ok g' \<and>
     (\<forall>y<20. \<forall>x<10. g' ! y ! x =
         (if (int x, int y) \<in> set (cells p) then Some (color p) else g ! y ! x))"

definition keeps :: "grid \<Rightarrow> grid \<Rightarrow> bool" where
  "keeps g g' \<longleftrightarrow> (\<forall>y<20. \<forall>x<10. g ! y ! x \<noteq> None \<longrightarrow> g' ! y ! x \<noteq> None)"

definition detected :: "grid \<Rightarrow> nat list" where
  "detected g = filter (\<lambda>y. list_all (\<lambda>c. c \<noteq> None) (g ! y)) [0..<20]"

subsection \<open>Well-formed states\<close>

text \<open>
  The invariant of the states of a run: a grid of 20 by 10, pieces with a rectangular
  shape and at least one set cell, and pending rows that are rows of the grid and full.
  \<open>present\<close>: both pieces exist, as after the constructor. \<open>grows s s'\<close> relates a
  state to a later one of the same game when no row has been compacted in between.
  \<open>compacts fadd dt s\<close> is the condition under which the animation part of
  \<open>update\<close> calls \<open>finish_line_clear\<close>.
\<close>

definition piece_ok :: "tetromino \<Rightarrow> bool" where
  "piece_ok p \<longleftrightarrow> rect (shape p) \<and> 0 < cell_count (shape p)"

definition pieces_ok :: "game \<Rightarrow> bool" where
  "pieces_ok s \<longleftrightarrow>
     (\<forall>p. current_piece s = Some p \<longrightarrow> piece_ok p) \<and>
     (\<forall>p. next_piece s = Some p \<longrightarrow> piece_ok p)"

definition pending_ok :: "game \<Rightarrow> bool" where
  "pending_ok s \<longleftrightarrow>
     (\<forall>y\<in>set (lines_clearing s). y < 20 \<and> list_all (\<lambda>c. c \<noteq> None) (grid s ! y))"

definition state_ok :: "game \<Rightarrow> bool" where
  "state_ok s \<longleftrightarrow> grid_ok (grid s) \<and> pieces_ok s \<and> pending_ok s"

definition present :: "game \<Rightarrow> bool" where
  "present s \<longleftrightarrow> current_piece s \<noteq> None \<and> next_piece s \<noteq> None"

definition grows :: "game \<Rightarrow> game \<Rightarrow> bool" where
  "grows s s' \<longleftrightarrow>
     state_ok s' \<and> keeps (grid s) (grid s') \<and>
     set (lines_clearing s) \<subseteq> set (lines_clearing s') \<and>
     (current_piece s \<noteq> None \<longrightarrow> current_piece s' \<noteq> None) \<and>
     (next_piece s \<noteq> None \<longrightarrow> next_piece s' \<noteq> None)"

definition compacts :: "(real \<Rightarrow> real \<Rightarrow> real) \<Rightarrow> real \<Rightarrow> game \<Rightarrow> bool" where
  "compacts fadd dt s \<longleftrightarrow>
     lines_clearing s \<noteq> [] \<and>
     fadd (clear_animation_time s) dt \<ge> real_of_int (clear_animation_duration s)"

subsection \<open>Replaying a session\<close>

text \<open>
  A list of events applied in order, for the concrete runs below; \<open>draw k\<close> is a set
  of random draws whose shape draw is \<open>k\<close>. The concrete runs pass \<open>(+)\<close> for the
  float addition: every sum they form is a sum of two integers below 1000, which float
  addition computes exactly.
\<close>

datatype event = Key key draws | Tick real draws

fun replay :: "(real \<Rightarrow> real \<Rightarrow> real) \<Rightarrow> event list \<Rightarrow> game \<Rightarrow> game option" where
  "replay fadd [] s = Some s"
| "replay fadd (Key ky d # evs) s =
     (case handle_key ky d s of None \<Rightarrow> None | Some s' \<Rightarrow> replay fadd evs s')"
| "replay fadd (Tick dt d # evs) s =
     (case update fadd dt d s of None \<Rightarrow> None | Some s' \<Rightarrow> replay fadd evs s')"

definition draw :: "nat \<Rightarrow> draws" where
  "draw k =
     \<lparr>draw_shape = k, draw_next = 0, draw_position = 0, draw_color = 0, draw_interval = 0\<rparr>"

subsection \<open>Concrete states\<close>

text \<open>
  \<open>fresh\<close> is the state the constructor returns for the draws 1, 2, 0: an empty grid,
  the square as current piece, the T as next piece. The other states differ from it in
  the fields shown.
\<close>

definition fresh :: game where
  "fresh =
     \<lparr>grid = replicate 20 (replicate 10 None),
      current_piece = Some (Tetromino 4 0 1),
      next_piece = Some (Tetromino 4 0 2),
      score = 0, lines_cleared = 0, level = 1, game_over = False, paused = False,
      fall_time = 0, fall_speed = 1000, random_block_time = 0,
      random_block_interval = 15000, random_blocks_enabled = False,
      lines_clearing = [], clear_animation_time = 0,
      clear_animation_duration = 800\<rparr>"

definition top_blocked :: game where
  "top_blocked =
     fresh\<lparr>grid := (replicate 10 None)[4 := Some RED] # replicate 19 (replicate 10 None)\<rparr>"

definition at_right_wall :: game where
  "at_right_wall =
     fresh\<lparr>current_piece :=
        Some \<lparr>pos_x = 9, pos_y = 0, shape = [[1], [1], [1], [1]], color = CYAN, rotation = 0\<rparr>\<rparr>"

definition on_floor :: game where
  "on_floor = fresh\<lparr>current_piece := Some (Tetromino 4 18 1)\<rparr>"

definition above_top :: game where
  "above_top = fresh\<lparr>current_piece := Some (Tetromino 4 (- 1) 2)\<rparr>"

text \<open>
  \<open>overhang\<close>: a vertical I in column 0 and a horizontal I on top of it, which leaves
  the cells below the horizontal I empty, and the square above them; \<open>build_overhang\<close>
  are the keys that lead there from the constructor with the draws 0, 0, 0.
\<close>

definition overhang :: game where
  "overhang =
     fresh\<lparr>grid := replicate 15 (replicate 10 None) @
                    [replicate 4 (Some CYAN) @ replicate 6 None] @
                    replicate 4 (Some CYAN # replicate 9 None),
           current_piece := Some (Tetromino 1 0 1),
           next_piece := Some (Tetromino 4 0 1)\<rparr>"

definition build_overhang :: "event list" where
  "build_overhang =
     [Key K_UP (draw 1),
      Key K_LEFT (draw 1), Key K_LEFT (draw 1), Key K_LEFT (draw 1), Key K_LEFT (draw 1),
      Key K_SPACE (draw 1),
      Key K_LEFT (draw 1), Key K_LEFT (draw 1), Key K_LEFT (draw 1), Key K_LEFT (draw 1),
      Key K_SPACE (draw 1),
      Key K_LEFT (draw 1), Key K_LEFT (draw 1), Key K_LEFT (draw 1)]"

text \<open>
  \<open>five_squares\<close> drops five squares side by side, from the constructor with the
  draws 1, 1, 0; this fills the rows 18 and 19 (\<open>two_rows_pending\<close>). \<open>stacked\<close> is
  that state after a sixth square has been dropped on the two pending rows, and
  \<open>resting\<close> the state in which the sixth square has been moved down onto them and 500
  ms have passed.
\<close>

definition five_squares :: "event list" where
  "five_squares =
     [Key K_LEFT (draw 1), Key K_LEFT (draw 1), Key K_LEFT (draw 1), Key K_LEFT (draw 1),
      Key K_SPACE (draw 1),
      Key K_LEFT (draw 1), Key K_LEFT (draw 1), Key K_SPACE (draw 1),
      Key K_SPACE (draw 1),
      Key K_RIGHT (draw 1), Key K_RIGHT (draw 1), Key K_SPACE (draw 1),
      Key K_RIGHT (draw 1), Key K_RIGHT (draw 1), Key K_RIGHT (draw 1), Key K_RIGHT (draw 1),
      Key K_SPACE (draw 2)]"

definition two_rows_pending :: game where
  "two_rows_pending =
     fresh\<lparr>grid := replicate 18 (replicate 10 None) @ replicate 2 (replicate 10 (Some YELLOW)),
           lines_clearing := [18, 19]\<rparr>"

definition stacked :: game where
  "stacked =
     two_rows_pending
       \<lparr>grid := replicate 16 (replicate 10 None) @
                 replicate 2 (replicate 4 None @ replicate 2 (Some YELLOW) @ replicate 4 None) @
                 replicate 2 (replicate 10 (Some YELLOW)),
        current_piece := Some (Tetromino 4 0 2),
        next_piece := Some (Tetromino 4 0 3)\<rparr>"

definition resting :: game where
  "resting =
     two_rows_pending
       \<lparr>current_piece := Some (Tetromino 4 16 1), fall_time := 500, clear_animation_time := 500\<rparr>"

text \<open>
  \<open>restarted\<close> is the state the constructor returns for the draws 0, 0, 0: an empty
  grid and two bars.
\<close>

definition restarted :: game where
  "restarted =
     fresh\<lparr>current_piece := Some (Tetromino 4 0 0), next_piece := Some (Tetromino 4 0 0)\<rparr>"

subsection \<open>Row removal as the specification words it\<close>

text \<open>
  The specification describes \<open>removeRows(rowIndices)\<close> as deleting each listed row
  and inserting an empty row at the top for each, the remaining rows keeping their
  order. This definition follows those words; \<open>delete_rows\<close> above is the loop of the
  source.
\<close>

definition removeRows :: "nat list \<Rightarrow> grid \<Rightarrow> grid" where
  "removeRows rowIndices g =
     replicate (length rowIndices) (replicate 10 None) @
     map (\<lambda>i. g ! i) (filter (\<lambda>i. i \<notin> set rowIndices) [0..<length g])"

section \<open>Lemmas\<close>

subsection \<open>The loops of \<open>rotate\<close>\<close>

text \<open>
  The inner and the outer loop return normally on rows that are long enough, and change
  exactly the cells they are meant to; on a rectangular shape the result is \<open>rot90\<close>.
\<close>

lemma rotate_cols_spec:
  "\<forall>c\<in>set cs. c < length row \<Longrightarrow>
   \<exists>rot'. rotate_cols rows r row cs rotated = Some rot' \<and> length rot' = length rotated \<and>
     (\<forall>c<length rotated. length (rot' ! c) = length (rotated ! c) \<and>
        (\<forall>j<length (rotated ! c). rot' ! c ! j =
            (if c \<in> set cs \<and> j = rows - 1 - r then row ! c else rotated ! c ! j)))"
proof (induction cs arbitrary: rotated)
  case Nil
  then show ?case by simp
next
  case (Cons c cs)
  let ?rot1 = "rotated[c := (rotated ! c)[rows - 1 - r := row ! c]]"
  from Cons.prems have cs: "\<forall>c\<in>set cs. c < length row" and c: "c < length row" by auto
  from Cons.IH[OF cs, of ?rot1] obtain rot' where
    r: "rotate_cols rows r row cs ?rot1 = Some rot'" "length rot' = length ?rot1"
    and v: "\<forall>c'<length ?rot1. length (rot' ! c') = length (?rot1 ! c') \<and>
        (\<forall>j<length (?rot1 ! c'). rot' ! c' ! j =
            (if c' \<in> set cs \<and> j = rows - 1 - r then row ! c' else ?rot1 ! c' ! j))"
    by blast
  have "rotate_cols rows r row (c # cs) rotated = Some rot'" using c r by simp
  moreover have "length rot' = length rotated" using r by simp
  moreover have "\<forall>c'<length rotated. length (rot' ! c') = length (rotated ! c') \<and>
        (\<forall>j<length (rotated ! c'). rot' ! c' ! j =
            (if c' \<in> set (c # cs) \<and> j = rows - 1 - r then row ! c' else rotated ! c' ! j))"
  proof (intro allI impI)
    fix c' assume c': "c' < length rotated"
    with v have 1: "length (rot' ! c') = length (?rot1 ! c')" and
      2: "\<forall>j<length (?rot1 ! c'). rot' ! c' ! j =
            (if c' \<in> set cs \<and> j = rows - 1 - r then row ! c' else ?rot1 ! c' ! j)" by auto
    show "length (rot' ! c') = length (rotated ! c') \<and>
        (\<forall>j<length (rotated ! c'). rot' ! c' ! j =
            (if c' \<in> set (c # cs) \<and> j = rows - 1 - r then row ! c' else rotated ! c' ! j))"
      using 1 2 c' by (cases "c' = c") (auto simp: nth_list_update)
  qed
  ultimately show ?case by blast
qed

lemma rect_nth_length: "rect sh \<Longrightarrow> r < length sh \<Longrightarrow> length (sh ! r) = length (hd sh)"
  unfolding rect_def using nth_mem by blast

lemma rect_nonempty: "rect sh \<Longrightarrow> sh \<noteq> []"
  unfolding rect_def by blast

lemma rect_hd_nonempty: "rect sh \<Longrightarrow> hd sh \<noteq> []"
  unfolding rect_def by blast

lemma rectI: "sh \<noteq> [] \<Longrightarrow> hd sh \<noteq> [] \<Longrightarrow> (\<And>row. row \<in> set sh \<Longrightarrow> length row = length (hd sh)) \<Longrightarrow> rect sh"
  unfolding rect_def by blast

lemma rotate_rows_spec:
  "\<forall>r\<in>set rs. r < rows \<and> cols \<le> length (sh ! r) \<Longrightarrow>
   \<exists>rot'. rotate_rows rows cols sh rs rotated = Some rot' \<and> length rot' = length rotated \<and>
     (\<forall>c<length rotated. length (rot' ! c) = length (rotated ! c) \<and>
        (\<forall>j<length (rotated ! c). rot' ! c ! j =
            (if c < cols \<and> rows - 1 - j \<in> set rs \<and> j < rows then sh ! (rows - 1 - j) ! c
             else rotated ! c ! j)))"
proof (induction rs arbitrary: rotated)
  case Nil
  then show ?case by simp
next
  case (Cons r rs)
  from Cons.prems have rs: "\<forall>r\<in>set rs. r < rows \<and> cols \<le> length (sh ! r)"
    and r: "r < rows" "cols \<le> length (sh ! r)" by auto
  have "\<forall>c\<in>set [0..<cols]. c < length (sh ! r)" using r by auto
  from rotate_cols_spec[OF this, of rows r rotated] obtain rot1 where
    c1: "rotate_cols rows r (sh ! r) [0..<cols] rotated = Some rot1" "length rot1 = length rotated"
    and v1: "\<forall>c<length rotated. length (rot1 ! c) = length (rotated ! c) \<and>
        (\<forall>j<length (rotated ! c). rot1 ! c ! j =
            (if c \<in> set [0..<cols] \<and> j = rows - 1 - r then sh ! r ! c else rotated ! c ! j))"
    by blast
  from Cons.IH[OF rs, of rot1] obtain rot' where
    c2: "rotate_rows rows cols sh rs rot1 = Some rot'" "length rot' = length rot1"
    and v2: "\<forall>c<length rot1. length (rot' ! c) = length (rot1 ! c) \<and>
        (\<forall>j<length (rot1 ! c). rot' ! c ! j =
            (if c < cols \<and> rows - 1 - j \<in> set rs \<and> j < rows then sh ! (rows - 1 - j) ! c
             else rot1 ! c ! j))"
    by blast
  have "rotate_rows rows cols sh (r # rs) rotated = Some rot'" using c1 c2 by simp
  moreover have "length rot' = length rotated" using c1 c2 by simp
  moreover have "\<forall>c<length rotated. length (rot' ! c) = length (rotated ! c) \<and>
        (\<forall>j<length (rotated ! c). rot' ! c ! j =
            (if c < cols \<and> rows - 1 - j \<in> set (r # rs) \<and> j < rows then sh ! (rows - 1 - j) ! c
             else rotated ! c ! j))"
  proof (intro allI impI conjI)
    fix c assume c: "c < length rotated"
    show "length (rot' ! c) = length (rotated ! c)" using c v1 v2 c1 by simp
    fix j assume j: "j < length (rotated ! c)"
    have e2: "rot' ! c ! j = (if c < cols \<and> rows - 1 - j \<in> set rs \<and> j < rows then sh ! (rows - 1 - j) ! c
             else rot1 ! c ! j)" using v2 v1 c j c1 by simp
    have e1: "rot1 ! c ! j = (if c < cols \<and> j = rows - 1 - r then sh ! r ! c else rotated ! c ! j)"
      using v1 c j by simp
    have k: "j = rows - 1 - r \<longleftrightarrow> (rows - 1 - j = r \<and> j < rows)" using r by auto
    show "rot' ! c ! j =
            (if c < cols \<and> rows - 1 - j \<in> set (r # rs) \<and> j < rows then sh ! (rows - 1 - j) ! c
             else rotated ! c ! j)"
      unfolding e2 e1 k by auto
  qed
  ultimately show ?case by blast
qed

lemma rotate_shape_rect:
  assumes "rect sh"
  shows "rotate_shape sh = Some (rot90 sh)"
proof -
  from rect_nonempty[OF assms] obtain row0 rest where sh: "sh = row0 # rest" by (cases sh) auto
  let ?rows = "length sh" and ?cols = "length (hd sh)"
  let ?init = "replicate ?cols (replicate ?rows (0::int))"
  have "\<forall>r\<in>set [0..<?rows]. r < ?rows \<and> ?cols \<le> length (sh ! r)"
    using rect_nth_length[OF assms] by simp
  from rotate_rows_spec[OF this, of ?init] obtain rot' where
    c: "rotate_rows ?rows ?cols sh [0..<?rows] ?init = Some rot'" "length rot' = length ?init"
    and v: "\<forall>c<length ?init. length (rot' ! c) = length (?init ! c) \<and>
        (\<forall>j<length (?init ! c). rot' ! c ! j =
            (if c < ?cols \<and> ?rows - 1 - j \<in> set [0..<?rows] \<and> j < ?rows then sh ! (?rows - 1 - j) ! c
             else ?init ! c ! j))"
    by blast
  have "rot' = rot90 sh"
  proof (rule nth_equalityI)
    show "length rot' = length (rot90 sh)" using c by (simp add: rot90_def)
    fix c assume "c < length rot'"
    then have cc: "c < ?cols" using c by simp
    show "rot' ! c = rot90 sh ! c"
    proof (rule nth_equalityI)
      show "length (rot' ! c) = length (rot90 sh ! c)" using v cc by (simp add: rot90_def)
      fix j assume "j < length (rot' ! c)"
      then have j: "j < ?rows" using v cc by simp
      moreover from j have "length sh - Suc j < length sh" by arith
      ultimately show "rot' ! c ! j = rot90 sh ! c ! j" using v cc by (simp add: rot90_def)
    qed
  qed
  then show ?thesis using c unfolding rotate_shape_def sh by (simp add: Let_def)
qed

lemma rot90_dims:
  assumes "rect sh"
  shows "length (rot90 sh) = length (hd sh)"
    and "c < length (hd sh) \<Longrightarrow> length (rot90 sh ! c) = length sh"
    and "c < length (hd sh) \<Longrightarrow> j < length sh \<Longrightarrow> rot90 sh ! c ! j = sh ! (length sh - 1 - j) ! c"
  by (simp_all add: rot90_def)

lemma rect_rot90:
  assumes "rect sh"
  shows "rect (rot90 sh)"
proof -
  have ne: "sh \<noteq> []" "hd sh \<noteq> []" using assms rect_nonempty rect_hd_nonempty by auto
  show ?thesis
  proof (rule rectI)
    show "rot90 sh \<noteq> []" using ne by (simp add: rot90_def)
    show "hd (rot90 sh) \<noteq> []" using ne by (simp add: rot90_def hd_map upt_conv_Cons)
    fix row assume "row \<in> set (rot90 sh)"
    then show "length row = length (hd (rot90 sh))"
      using ne by (auto simp: rot90_def hd_map upt_conv_Cons)
  qed
qed

lemma hd_rot90_length:
  assumes "rect sh"
  shows "length (hd (rot90 sh)) = length sh"
  using rect_hd_nonempty[OF assms] by (simp add: rot90_def hd_map upt_conv_Cons)

lemma rot90_rot90:
  assumes "rect sh" "r < length sh" "c < length (hd sh)"
  shows "rot90 (rot90 sh) ! r ! c = sh ! (length sh - 1 - r) ! (length (hd sh) - 1 - c)"
proof -
  have d: "length (rot90 sh) = length (hd sh)" "length (hd (rot90 sh)) = length sh"
    using assms rot90_dims(1) hd_rot90_length by auto
  have "rot90 (rot90 sh) ! r ! c = rot90 sh ! (length (hd sh) - 1 - c) ! r"
    using rot90_dims(3)[OF rect_rot90[OF assms(1)], of r c] assms d by simp
  also have "\<dots> = sh ! (length sh - 1 - r) ! (length (hd sh) - 1 - c)"
    using rot90_dims(3)[OF assms(1), of "length (hd sh) - 1 - c" r] assms by simp
  finally show ?thesis .
qed

lemma rot90_four:
  assumes "rect sh"
  shows "rot90 (rot90 (rot90 (rot90 sh))) = sh"
proof -
  let ?s2 = "rot90 (rot90 sh)"
  have r1: "rect (rot90 sh)" by (rule rect_rot90[OF assms])
  have r2: "rect ?s2" by (rule rect_rot90[OF r1])
  have r3: "rect (rot90 ?s2)" by (rule rect_rot90[OF r2])
  have d2: "length ?s2 = length sh" "length (hd ?s2) = length (hd sh)"
    by (simp_all add: rot90_dims(1)[OF r1] hd_rot90_length[OF r1] hd_rot90_length[OF assms] rot90_dims(1)[OF assms])
  have d4: "length (rot90 (rot90 ?s2)) = length sh" "length (hd (rot90 (rot90 ?s2))) = length (hd sh)"
    by (simp_all add: rot90_dims(1)[OF r3] hd_rot90_length[OF r3] hd_rot90_length[OF r2] rot90_dims(1)[OF r2] d2)
  show ?thesis
  proof (rule nth_equalityI)
    show "length (rot90 (rot90 ?s2)) = length sh" by (rule d4)
    fix r assume "r < length (rot90 (rot90 ?s2))"
    then have r: "r < length sh" using d4 by simp
    show "rot90 (rot90 ?s2) ! r = sh ! r"
    proof (rule nth_equalityI)
      show "length (rot90 (rot90 ?s2) ! r) = length (sh ! r)"
        using rect_nth_length[OF rect_rot90[OF r3], of r] rect_nth_length[OF assms r] d4 r by simp
      fix c assume "c < length (rot90 (rot90 ?s2) ! r)"
      then have c: "c < length (hd sh)"
        using rect_nth_length[OF rect_rot90[OF r3], of r] d4 r by simp
      have "rot90 (rot90 ?s2) ! r ! c = ?s2 ! (length sh - 1 - r) ! (length (hd sh) - 1 - c)"
        using rot90_rot90[OF r2, of r c] r c d2 by simp
      also have "\<dots> = sh ! r ! c"
        using rot90_rot90[OF assms, of "length sh - 1 - r" "length (hd sh) - 1 - c"] r c by simp
      finally show "rot90 (rot90 ?s2) ! r ! c = sh ! r ! c" .
    qed
  qed
qed

subsection \<open>Counting set cells\<close>

lemma length_filter_sum:
  "length (filter P xs) = (\<Sum>i<length xs. if P (xs ! i) then 1 else 0)"
proof (induction xs rule: rev_induct)
  case Nil
  then show ?case by simp
next
  case (snoc x xs)
  have "(\<Sum>i<length xs. if P ((xs @ [x]) ! i) then 1 else 0) = (\<Sum>i<length xs. if P (xs ! i) then 1 else (0::nat))"
    by (rule sum.cong) (simp_all add: nth_append)
  then show ?case using snoc by simp
qed

lemma length_filter_concat_sum:
  "length (filter P (concat xss)) = (\<Sum>r<length xss. length (filter P (xss ! r)))"
proof (induction xss rule: rev_induct)
  case Nil
  then show ?case by simp
next
  case (snoc xs xss)
  have "(\<Sum>r<length xss. length (filter P ((xss @ [xs]) ! r))) = (\<Sum>r<length xss. length (filter P (xss ! r)))"
    by (rule sum.cong) (simp_all add: nth_append)
  then show ?case using snoc by simp
qed

lemma cell_count_rect:
  assumes "rect sh"
  shows "cell_count sh = (\<Sum>r<length sh. \<Sum>c<length (hd sh). if sh ! r ! c \<noteq> 0 then 1 else 0)"
proof -
  have "cell_count sh = (\<Sum>r<length sh. \<Sum>c<length (sh ! r). if sh ! r ! c \<noteq> 0 then 1 else 0)"
    unfolding cell_count_def length_filter_concat_sum
    by (rule sum.cong) (simp_all add: length_filter_sum)
  also have "\<dots> = (\<Sum>r<length sh. \<Sum>c<length (hd sh). if sh ! r ! c \<noteq> 0 then 1 else 0)"
    by (rule sum.cong) (simp_all add: rect_nth_length[OF assms])
  finally show ?thesis .
qed

lemma cell_count_rot90:
  assumes "rect sh"
  shows "cell_count (rot90 sh) = cell_count sh"
proof -
  let ?R = "length sh" and ?C = "length (hd sh)"
  let ?f = "\<lambda>r c. if sh ! r ! c \<noteq> 0 then 1 else (0::nat)"
  have "cell_count (rot90 sh) = (\<Sum>c<?C. \<Sum>j<?R. if rot90 sh ! c ! j \<noteq> 0 then 1 else 0)"
    using cell_count_rect[OF rect_rot90[OF assms]]
    by (simp add: rot90_dims(1)[OF assms] hd_rot90_length[OF assms])
  also have "\<dots> = (\<Sum>c<?C. \<Sum>j<?R. ?f (?R - Suc j) c)"
    by (intro sum.cong refl) (simp add: rot90_dims(3)[OF assms])
  also have "\<dots> = (\<Sum>c<?C. \<Sum>r<?R. ?f r c)"
  proof (rule sum.cong)
    fix c
    show "(\<Sum>j<?R. ?f (?R - Suc j) c) = (\<Sum>r<?R. ?f r c)"
      by (rule sum.nat_diff_reindex[of "\<lambda>r. ?f r c" ?R])
  qed simp
  also have "\<dots> = (\<Sum>r<?R. \<Sum>c<?C. ?f r c)"
    by (rule sum.swap)
  also have "\<dots> = cell_count sh"
    using cell_count_rect[OF assms] by simp
  finally show ?thesis .
qed

subsection \<open>Grid accesses in range\<close>

lemma grid_ok_nth: "grid_ok g \<Longrightarrow> y < 20 \<Longrightarrow> length (g ! y) = 10"
  unfolding grid_ok_def GRID_HEIGHT_def GRID_WIDTH_def using nth_mem by metis

lemma grid_ok_length: "grid_ok g \<Longrightarrow> length g = 20"
  unfolding grid_ok_def GRID_HEIGHT_def by blast

lemma grid_okI: "length g = 20 \<Longrightarrow> (\<And>y. y < 20 \<Longrightarrow> length (g ! y) = 10) \<Longrightarrow> grid_ok g"
  unfolding grid_ok_def GRID_HEIGHT_def GRID_WIDTH_def by (metis in_set_conv_nth)

lemma grid_get_ok: "grid_ok g \<Longrightarrow> y < 20 \<Longrightarrow> x < 10 \<Longrightarrow> grid_get g y x = Some (g ! y ! x)"
  by (simp add: grid_get_def grid_ok_length grid_ok_nth)

lemma grid_set_ok:
  "grid_ok g \<Longrightarrow> y < 20 \<Longrightarrow> x < 10 \<Longrightarrow> grid_set g y x v = Some (g[y := (g ! y)[x := v]])"
  by (simp add: grid_set_def grid_ok_length grid_ok_nth)

lemma grid_ok_update:
  assumes "grid_ok g"
  shows "grid_ok (g[y := (g ! y)[x := v]])"
proof (rule grid_okI)
  show "length (g[y := (g ! y)[x := v]]) = 20" using grid_ok_length[OF assms] by simp
  fix y' :: nat assume "y' < 20"
  then show "length (g[y := (g ! y)[x := v]] ! y') = 10"
    using grid_ok_nth[OF assms, of y'] grid_ok_length[OF assms]
    by (cases "y' = y") simp_all
qed

subsection \<open>Positions and validity\<close>

lemma row_positions_ok:
  "\<forall>c\<in>set cs. c < length row \<Longrightarrow>
   row_positions x y row r cs =
     Some (map (\<lambda>c. (x + int c, y + int r)) (filter (\<lambda>c. row ! c \<noteq> 0) cs))"
  by (induction cs) auto

lemma rows_positions_ok:
  "\<forall>r\<in>set rs. cols \<le> length (sh ! r) \<Longrightarrow>
   rows_positions x y sh cols rs =
     Some (concat (map (\<lambda>r. map (\<lambda>c. (x + int c, y + int r))
                                (filter (\<lambda>c. sh ! r ! c \<noteq> 0) [0..<cols])) rs))"
proof (induction rs)
  case Nil
  then show ?case by simp
next
  case (Cons r rs)
  then have "\<forall>c\<in>set [0..<cols]. c < length (sh ! r)" by auto
  from row_positions_ok[OF this] Cons show ?case by simp
qed

lemma get_positions_rect:
  assumes "rect (shape p)"
  shows "get_positions p = Some (cells p)"
proof -
  obtain row0 rest where sh: "shape p = row0 # rest"
    using rect_nonempty[OF assms] by (cases "shape p") auto
  have "\<forall>r\<in>set [0..<length (shape p)]. length (hd (shape p)) \<le> length (shape p ! r)"
    using rect_nth_length[OF assms] by simp
  from rows_positions_ok[OF this, of "pos_x p" "pos_y p"]
  show ?thesis unfolding get_positions_def cells_def using sh by simp
qed

lemma in_cells_iff:
  "q \<in> set (cells p) \<longleftrightarrow>
     (\<exists>r<length (shape p). \<exists>c<length (hd (shape p)).
        shape p ! r ! c \<noteq> 0 \<and> q = (pos_x p + int c, pos_y p + int r))"
  unfolding cells_def by auto

lemma valid_cells_ok:
  assumes "grid_ok g"
  shows "valid_cells g ps = Some (\<forall>q\<in>set ps. \<not> blocked g q)"
proof (induction ps)
  case Nil
  then show ?case by simp
next
  case (Cons q ps)
  obtain x y where q: "q = (x, y)" by (cases q)
  show ?case
  proof (cases "x < 0 \<or> x \<ge> 10 \<or> y \<ge> 20")
    case True
    then show ?thesis unfolding q by (auto simp: blocked_def GRID_WIDTH_def GRID_HEIGHT_def)
  next
    case out: False
    show ?thesis
    proof (cases "y \<ge> 0")
      case True
      with out have "nat y < 20" "nat x < 10" by auto
      from grid_get_ok[OF assms this] out True Cons show ?thesis
        unfolding q by (auto simp: blocked_def GRID_WIDTH_def GRID_HEIGHT_def)
    next
      case False
      with out Cons show ?thesis
        unfolding q by (auto simp: blocked_def GRID_WIDTH_def GRID_HEIGHT_def)
    qed
  qed
qed

lemma is_valid_position_ok:
  assumes "grid_ok g" "rect (shape p)"
  shows "is_valid_position g p = Some (\<forall>q\<in>set (cells p). \<not> blocked g q)"
  by (simp add: is_valid_position_def get_positions_rect[OF assms(2)] valid_cells_ok[OF assms(1)])

subsection \<open>Committing a piece\<close>

lemma write_cells_ok:
  assumes "grid_ok g"
  shows "\<exists>g'. write_cells col ps g = Some g' \<and> grid_ok g' \<and>
           (\<forall>y<20. \<forall>x<10. g' ! y ! x =
               (if (int x, int y) \<in> set ps then Some col else g ! y ! x))"
  using assms
proof (induction ps arbitrary: g)
  case Nil
  then show ?case by simp
next
  case (Cons q ps)
  obtain qx qy where q: "q = (qx, qy)" by (cases q)
  show ?case
  proof (cases "0 \<le> qy \<and> qy < 20 \<and> 0 \<le> qx \<and> qx < 10")
    case True
    let ?g1 = "g[nat qy := (g ! nat qy)[nat qx := Some col]]"
    from True have b: "nat qy < 20" "nat qx < 10" by auto
    have s: "grid_set g (nat qy) (nat qx) (Some col) = Some ?g1"
      by (rule grid_set_ok[OF Cons.prems b])
    from Cons.IH[OF grid_ok_update[OF Cons.prems], of "nat qy" "nat qx" "Some col"]
    obtain g' where g': "write_cells col ps ?g1 = Some g'" "grid_ok g'"
      and v: "\<forall>y<20. \<forall>x<10. g' ! y ! x = (if (int x, int y) \<in> set ps then Some col else ?g1 ! y ! x)"
      by blast
    have "write_cells col (q # ps) g = Some g'"
      using True s g' unfolding q by (simp add: GRID_WIDTH_def GRID_HEIGHT_def)
    moreover have "\<forall>y<20. \<forall>x<10. g' ! y ! x =
               (if (int x, int y) \<in> set (q # ps) then Some col else g ! y ! x)"
    proof (intro allI impI)
      fix y x :: nat assume yx: "y < 20" "x < 10"
      have "?g1 ! y ! x = (if (int x, int y) = (qx, qy) then Some col else g ! y ! x)"
        using yx True grid_ok_length[OF Cons.prems] grid_ok_nth[OF Cons.prems, of y]
        by (auto simp: nth_list_update)
      then show "g' ! y ! x = (if (int x, int y) \<in> set (q # ps) then Some col else g ! y ! x)"
        using v yx unfolding q by auto
    qed
    ultimately show ?thesis using g' by blast
  next
    case False
    from Cons.IH[OF Cons.prems]
    obtain g' where g': "write_cells col ps g = Some g'" "grid_ok g'"
      and v: "\<forall>y<20. \<forall>x<10. g' ! y ! x = (if (int x, int y) \<in> set ps then Some col else g ! y ! x)"
      by blast
    have "write_cells col (q # ps) g = Some g'"
      using False g' unfolding q by (auto simp: GRID_WIDTH_def GRID_HEIGHT_def)
    moreover have "\<forall>y<20. \<forall>x<10. (int x, int y) \<noteq> q"
      using False unfolding q by auto
    ultimately show ?thesis using g' v by auto
  qed
qed

lemma rect_T: "rect [[1, 1, 1], [0, 1, 0]]"
  by (rule rectI) auto

lemma grid_ok_empty: "grid_ok (replicate 20 (replicate 10 None))"
  by (rule grid_okI) simp_all

subsection \<open>Row detection and compaction\<close>

lemma full_rows_ok:
  "\<forall>y\<in>set ys. y < length g \<Longrightarrow>
   full_rows g ys = Some (filter (\<lambda>y. list_all (\<lambda>c. c \<noteq> None) (g ! y)) ys)"
  by (induction ys) auto

lemma full_rows_detected: "grid_ok g \<Longrightarrow> full_rows g [0..<GRID_HEIGHT] = Some (detected g)"
  using full_rows_ok[of "[0..<20]" g] by (simp add: detected_def GRID_HEIGHT_def grid_ok_length)

lemma delete_rows_ok:
  "grid_ok g \<Longrightarrow> \<forall>y\<in>set ys. y < 20 \<Longrightarrow> \<exists>g'. delete_rows ys g = Some g' \<and> grid_ok g'"
proof (induction ys arbitrary: g)
  case Nil
  then show ?case by simp
next
  case (Cons y ys)
  let ?g1 = "replicate GRID_WIDTH None # (take y g @ drop (Suc y) g)"
  have y: "y < length g" using Cons.prems by (simp add: grid_ok_length)
  have "length ?g1 = GRID_HEIGHT"
    using y Cons.prems(1) unfolding grid_ok_def by simp
  moreover have "\<forall>row\<in>set ?g1. length row = GRID_WIDTH"
  proof
    fix row assume "row \<in> set ?g1"
    then have "row = replicate GRID_WIDTH None \<or> row \<in> set g"
      using set_take_subset[of y g] set_drop_subset[of "Suc y" g] by auto
    then show "length row = GRID_WIDTH" using Cons.prems(1) unfolding grid_ok_def by auto
  qed
  ultimately have "grid_ok ?g1" unfolding grid_ok_def by blast
  from Cons.IH[OF this] Cons.prems(2) y show ?case by simp
qed

lemma finish_line_clear_idle: "lines_clearing s = [] \<Longrightarrow> finish_line_clear s = Some s"
  by (simp add: finish_line_clear_def)

lemma finish_line_clear_ok:
  assumes "grid_ok (grid s)" "\<forall>y\<in>set (lines_clearing s). y < 20"
  shows "\<exists>g. grid_ok g \<and>
           (lines_clearing s \<noteq> [] \<longrightarrow>
              delete_rows (rev (sort (lines_clearing s))) (grid s) = Some g) \<and>
           (lines_clearing s = [] \<longrightarrow> g = grid s) \<and>
           finish_line_clear s =
             Some (if lines_clearing s = [] then s
                   else s\<lparr>grid := g,
                          lines_cleared := lines_cleared s + int (length (lines_clearing s)),
                          score := score s + int (length (lines_clearing s)) * 100 * level s,
                          level := (lines_cleared s + int (length (lines_clearing s))) div 10 + 1,
                          fall_speed := max 100 (1000 -
                             ((lines_cleared s + int (length (lines_clearing s))) div 10 + 1 - 1) * 100),
                          lines_clearing := [],
                          clear_animation_time := 0\<rparr>)"
proof (cases "lines_clearing s = []")
  case True
  then show ?thesis using assms(1) by (auto simp: finish_line_clear_def)
next
  case False
  have "\<forall>y\<in>set (rev (sort (lines_clearing s))). y < 20" using assms(2) by simp
  from delete_rows_ok[OF assms(1) this] obtain g where
    g: "delete_rows (rev (sort (lines_clearing s))) (grid s) = Some g" "grid_ok g" by blast
  show ?thesis
    by (rule exI[of _ g]) (use False g in \<open>simp add: finish_line_clear_def Let_def\<close>)
qed

subsection \<open>Spawning\<close>

lemma shapes_ok: "i < 7 \<Longrightarrow> rect (TETROMINOS ! i) \<and> 0 < cell_count (TETROMINOS ! i)"
proof -
  assume "i < 7"
  then consider "i = 0" | "i = 1" | "i = 2" | "i = 3" | "i = 4" | "i = 5" | "i = 6" by linarith
  then show ?thesis
    by cases (auto simp: TETROMINOS_def cell_count_def intro!: rectI)
qed

lemma randint_shape_less: "randint_shape k < 7"
  by (simp add: randint_shape_def TETROMINOS_def)

lemma piece_ok_Tetromino: "piece_ok (Tetromino x y (randint_shape k))"
  using shapes_ok[OF randint_shape_less, of k] by (simp add: piece_ok_def Tetromino_def)

lemma spawn_new_piece_ok:
  assumes "grid_ok (grid s)" "pieces_ok s"
  shows "\<exists>s'. spawn_new_piece k s = Some s' \<and> pieces_ok s' \<and>
           s' = (case next_piece s of
                   None \<Rightarrow> s\<lparr>next_piece := Some (Tetromino 4 0 (randint_shape k))\<rparr>
                 | Some q \<Rightarrow>
                     s\<lparr>current_piece := Some q,
                       next_piece := Some (Tetromino 4 0 (randint_shape k)),
                       game_over := (game_over s \<or> is_valid_position (grid s) q = Some False)\<rparr>)"
proof (cases "next_piece s")
  case None
  then show ?thesis
    using assms(2) piece_ok_Tetromino[of 4 0 k]
    by (auto simp: spawn_new_piece_def pieces_ok_def GRID_WIDTH_def)
next
  case (Some q)
  then have "rect (shape q)" using assms(2) by (simp add: pieces_ok_def piece_ok_def)
  from is_valid_position_ok[OF assms(1) this] Some show ?thesis
    using assms(2) piece_ok_Tetromino[of 4 0 k]
    by (auto simp: spawn_new_piece_def pieces_ok_def GRID_WIDTH_def Let_def)
qed

subsection \<open>Placement\<close>

lemma state_okD:
  "state_ok s \<Longrightarrow> grid_ok (grid s)"
  "state_ok s \<Longrightarrow> pieces_ok s"
  "state_ok s \<Longrightarrow> pending_ok s"
  by (simp_all add: state_ok_def)

lemma pending_in_detected:
  "pending_ok s \<Longrightarrow> set (lines_clearing s) \<subseteq> set (detected (grid s))"
  by (auto simp: pending_ok_def detected_def)

lemma detected_full: "y \<in> set (detected g) \<Longrightarrow> y < 20 \<and> list_all (\<lambda>c. c \<noteq> None) (g ! y)"
  by (simp add: detected_def)

lemma clear_lines_ok:
  assumes "grid_ok (grid s)" "pending_ok s"
  shows "clear_lines s =
           Some (if detected (grid s) \<noteq> []
                 then s\<lparr>lines_clearing := detected (grid s), clear_animation_time := 0\<rparr>
                 else s)"
proof (cases "detected (grid s) = []")
  case True
  with pending_in_detected[OF assms(2)] have "lines_clearing s = []" by simp
  with True show ?thesis
    by (simp add: clear_lines_def full_rows_detected[OF assms(1)] finish_line_clear_idle)
next
  case False
  then show ?thesis by (simp add: clear_lines_def full_rows_detected[OF assms(1)])
qed

lemma clear_lines_lines:
  assumes "grid_ok (grid s)" "pending_ok s" "clear_lines s = Some s'"
  shows "lines_clearing s' = detected (grid s)" "grid s' = grid s"
    "current_piece s' = current_piece s" "next_piece s' = next_piece s" "pending_ok s'"
proof -
  have e: "s' = (if detected (grid s) \<noteq> []
                 then s\<lparr>lines_clearing := detected (grid s), clear_animation_time := 0\<rparr>
                 else s)"
    using clear_lines_ok[OF assms(1,2)] assms(3) by simp
  show "lines_clearing s' = detected (grid s)"
    using e pending_in_detected[OF assms(2)] by (cases "detected (grid s) = []") auto
  show "grid s' = grid s" "current_piece s' = current_piece s" "next_piece s' = next_piece s"
    using e by (simp_all split: if_splits)
  show "pending_ok s'"
    using e assms(2) by (auto simp: pending_ok_def dest: detected_full split: if_splits)
qed

lemma written_unique:
  assumes "written p g g1" "written p g g2"
  shows "g1 = g2"
proof (rule nth_equalityI)
  show "length g1 = length g2" using assms by (simp add: written_def grid_ok_length)
  fix y assume "y < length g1"
  then have y: "y < 20" using assms(1) by (simp add: written_def grid_ok_length)
  show "g1 ! y = g2 ! y"
  proof (rule nth_equalityI)
    show "length (g1 ! y) = length (g2 ! y)"
      using assms y by (simp add: written_def grid_ok_nth)
    fix x assume "x < length (g1 ! y)"
    then have "x < 10" using assms(1) y by (simp add: written_def grid_ok_nth)
    then show "g1 ! y ! x = g2 ! y ! x" using assms y by (simp add: written_def)
  qed
qed

lemma list_all_row: "length row = 10 \<Longrightarrow> list_all P row \<longleftrightarrow> (\<forall>x<10. P (row ! x))"
  by (simp add: list_all_length)

lemma written_keeps_full:
  assumes "grid_ok g" "written p g g'" "y < 20" "list_all (\<lambda>c. c \<noteq> None) (g ! y)"
  shows "list_all (\<lambda>c. c \<noteq> None) (g' ! y)"
proof -
  have l: "length (g ! y) = 10" "length (g' ! y) = 10"
    using assms by (simp_all add: written_def grid_ok_nth)
  show ?thesis
    using assms(2,3,4) unfolding list_all_row[OF l(1)] list_all_row[OF l(2)] written_def
    by auto
qed

lemma place_piece_ok:
  assumes "state_ok s" "current_piece s = Some p"
  shows "\<exists>g s'. written p (grid s) g \<and>
           write_cells (color p) (cells p) (grid s) = Some g \<and>
           place_piece k s = Some s' \<and> state_ok s' \<and>
           grid s' = g \<and> lines_clearing s' = detected g \<and>
           next_piece s' = Some (Tetromino 4 0 (randint_shape k)) \<and>
           (\<forall>q. next_piece s = Some q \<longrightarrow> current_piece s' = Some q) \<and>
           (next_piece s = None \<longrightarrow> current_piece s' = Some p)"
proof -
  have g0: "grid_ok (grid s)" and po: "pieces_ok s" and pe: "pending_ok s"
    using assms(1) by (simp_all add: state_ok_def)
  have rp: "rect (shape p)" using po assms(2) by (simp add: pieces_ok_def piece_ok_def)
  from write_cells_ok[OF g0, of "color p" "cells p"] obtain g where
    w: "write_cells (color p) (cells p) (grid s) = Some g" and wr: "written p (grid s) g"
    unfolding written_def by blast
  have g1: "grid_ok g" using wr by (simp add: written_def)
  let ?s0 = "s\<lparr>grid := g\<rparr>"
  have pe0: "pending_ok ?s0"
    using pe written_keeps_full[OF g0 wr] by (auto simp: pending_ok_def)
  have g0': "grid_ok (grid ?s0)" using g1 by simp
  obtain s1 where c: "clear_lines ?s0 = Some s1"
    using clear_lines_ok[OF g0' pe0] by blast
  note cl = clear_lines_lines[OF g0' pe0 c]
  have po1: "pieces_ok s1" using po cl by (simp add: pieces_ok_def)
  have g1': "grid_ok (grid s1)" using cl g1 by simp
  from spawn_new_piece_ok[OF g1' po1, of k] obtain s' where
    sp: "spawn_new_piece k s1 = Some s'" "pieces_ok s'"
    and e: "s' = (case next_piece s1 of
                   None \<Rightarrow> s1\<lparr>next_piece := Some (Tetromino 4 0 (randint_shape k))\<rparr>
                 | Some q \<Rightarrow>
                     s1\<lparr>current_piece := Some q,
                       next_piece := Some (Tetromino 4 0 (randint_shape k)),
                       game_over := (game_over s1 \<or> is_valid_position (grid s1) q = Some False)\<rparr>)"
    by blast
  have f: "grid s' = g" "lines_clearing s' = detected g"
    "next_piece s' = Some (Tetromino 4 0 (randint_shape k))"
    using e cl by (simp_all split: option.splits)
  have f2: "\<forall>q. next_piece s = Some q \<longrightarrow> current_piece s' = Some q"
    "next_piece s = None \<longrightarrow> current_piece s' = Some p"
    using e cl assms(2) by (simp_all split: option.splits)
  have "pending_ok s'" using cl(5) cl(1) cl(2) f by (simp add: pending_ok_def)
  then have ok: "state_ok s'" using sp(2) f(1) g1 by (simp add: state_ok_def)
  have "place_piece k s = Some s'"
    using assms(2) get_positions_rect[OF rp] w c sp(1) by (simp add: place_piece_def)
  with wr w ok f f2 show ?thesis
    by (intro exI[of _ g] exI[of _ s']) simp
qed

subsection \<open>Moves, rotation and hard drop\<close>

lemma is_valid_position_valid:
  "grid_ok g \<Longrightarrow> rect (shape p) \<Longrightarrow> is_valid_position g p = Some (valid g p)"
  by (simp add: is_valid_position_ok valid_def)

lemma state_ok_current:
  "state_ok s \<Longrightarrow> current_piece s = Some p \<Longrightarrow> piece_ok p"
  by (simp add: state_ok_def pieces_ok_def)

lemma piece_ok_rect: "piece_ok p \<Longrightarrow> rect (shape p)"
  by (simp add: piece_ok_def)

lemma same_current: "current_piece s = Some p \<Longrightarrow> s\<lparr>current_piece := Some p\<rparr> = s"
  by (cases s) simp

lemma state_ok_set_current:
  "state_ok s \<Longrightarrow> piece_ok p \<Longrightarrow> state_ok (s\<lparr>current_piece := Some p\<rparr>)"
  by (simp add: state_ok_def pieces_ok_def pending_ok_def)

lemma move_piece_ok:
  assumes "state_ok s" "current_piece s = Some p"
  shows "move_piece dx dy k s =
           (if valid (grid s) (p\<lparr>pos_x := pos_x p + dx, pos_y := pos_y p + dy\<rparr>)
            then Some (True, s\<lparr>current_piece := Some (p\<lparr>pos_x := pos_x p + dx, pos_y := pos_y p + dy\<rparr>)\<rparr>)
            else if dy > 0 then map_option (Pair False) (place_piece k s)
            else Some (False, s))"
proof -
  let ?p1 = "p\<lparr>pos_x := pos_x p + dx, pos_y := pos_y p + dy\<rparr>"
  have "rect (shape ?p1)" using state_ok_current[OF assms] by (simp add: piece_ok_def)
  from is_valid_position_valid[OF state_okD(1)[OF assms(1)] this]
  have v: "is_valid_position (grid s) ?p1 = Some (valid (grid s) ?p1)" .
  have bk: "?p1\<lparr>pos_x := pos_x p, pos_y := pos_y p\<rparr> = p" by simp
  show ?thesis
    unfolding move_piece_def Let_def using assms(2) v
    by (simp add: bk same_current[OF assms(2)] split: option.splits)
qed

lemma rotate_piece_ok:
  assumes "state_ok s" "current_piece s = Some p"
  shows "rotate_piece s =
           Some (if valid (grid s) (p\<lparr>shape := rot90 (shape p)\<rparr>)
                 then s\<lparr>current_piece := Some (p\<lparr>shape := rot90 (shape p)\<rparr>)\<rparr>
                 else s)"
proof -
  let ?p1 = "p\<lparr>shape := rot90 (shape p)\<rparr>"
  have r: "rect (shape p)" using state_ok_current[OF assms] by (simp add: piece_ok_def)
  have "rect (shape ?p1)" using rect_rot90[OF r] by simp
  from is_valid_position_valid[OF state_okD(1)[OF assms(1)] this]
  have v: "is_valid_position (grid s) ?p1 = Some (valid (grid s) ?p1)" .
  have rot: "rotate_tetromino p = Some ?p1" by (simp add: rotate_tetromino_def rotate_shape_rect[OF r])
  have bk: "?p1\<lparr>shape := shape p\<rparr> = p" by simp
  show ?thesis
    unfolding rotate_piece_def Let_def using assms(2) v rot
    by (simp add: bk same_current[OF assms(2)])
qed

lemma piece_ok_rot90: "piece_ok p \<Longrightarrow> piece_ok (p\<lparr>shape := rot90 (shape p)\<rparr>)"
  by (simp add: piece_ok_def rect_rot90 cell_count_rot90)

lemma piece_ok_move: "piece_ok p \<Longrightarrow> piece_ok (p\<lparr>pos_x := a, pos_y := b\<rparr>)"
  by (simp add: piece_ok_def)

lemma piece_ok_lowered: "piece_ok p \<Longrightarrow> piece_ok (lowered p d)"
  by (simp add: piece_ok_def lowered_def)

lemma lowered_0: "lowered p 0 = p"
  by (simp add: lowered_def)

lemma lowered_lowered: "lowered (lowered p a) b = lowered p (a + b)"
  by (simp add: lowered_def add.assoc)

lemma move_down_lowered: "p\<lparr>pos_x := pos_x p + 0, pos_y := pos_y p + 1\<rparr> = lowered p 1"
  by (simp add: lowered_def)

lemma hard_drop_step:
  assumes "state_ok s" "current_piece s = Some p"
  shows "hard_drop k s =
           (if valid (grid s) (lowered p 1)
            then hard_drop k (s\<lparr>current_piece := Some (lowered p 1)\<rparr>)
            else place_piece k s)"
proof -
  obtain g s' where pl: "place_piece k s = Some s'"
    using place_piece_ok[OF assms, of k] by blast
  show ?thesis
    by (subst hard_drop.simps)
       (simp add: move_piece_ok[OF assms] lowered_def pl)
qed

lemma hard_drop_lowered:
  assumes "state_ok s" "current_piece s = Some p"
    and "\<forall>i. 1 \<le> i \<and> i \<le> d \<longrightarrow> valid (grid s) (lowered p i)"
    and "\<not> valid (grid s) (lowered p (Suc d))"
  shows "hard_drop k s = place_piece k (s\<lparr>current_piece := Some (lowered p d)\<rparr>)"
  using assms
proof (induction d arbitrary: s p)
  case 0
  then show ?case
    by (simp add: hard_drop_step[OF "0.prems"(1,2)] lowered_0 same_current)
next
  case (Suc d)
  let ?s1 = "s\<lparr>current_piece := Some (lowered p 1)\<rparr>"
  have v1: "valid (grid s) (lowered p 1)" using Suc.prems(3) by simp
  have ok1: "state_ok ?s1"
    by (rule state_ok_set_current[OF Suc.prems(1) piece_ok_lowered[OF state_ok_current[OF Suc.prems(1,2)]]])
  have c1: "current_piece ?s1 = Some (lowered p 1)" by simp
  have a: "\<forall>i. 1 \<le> i \<and> i \<le> d \<longrightarrow> valid (grid ?s1) (lowered (lowered p 1) i)"
    using Suc.prems(3) by (simp add: lowered_lowered)
  have b: "\<not> valid (grid ?s1) (lowered (lowered p 1) (Suc d))"
    using Suc.prems(4) by (simp add: lowered_lowered)
  have "hard_drop k s = hard_drop k ?s1"
    using hard_drop_step[OF Suc.prems(1,2), of k] v1 by simp
  also have "\<dots> = place_piece k (?s1\<lparr>current_piece := Some (lowered (lowered p 1) d)\<rparr>)"
    by (rule Suc.IH[OF ok1 c1 a b])
  finally show ?case by (simp add: lowered_lowered)
qed

lemma cells_nonempty:
  assumes "piece_ok p"
  shows "\<exists>r<length (shape p). \<exists>c<length (hd (shape p)). shape p ! r ! c \<noteq> 0"
proof (rule ccontr)
  assume "\<not> ?thesis"
  then have z: "\<forall>r<length (shape p). \<forall>c<length (hd (shape p)). shape p ! r ! c = 0" by simp
  have "cell_count (shape p) = 0"
    unfolding cell_count_rect[OF piece_ok_rect[OF assms]] using z by simp
  with assms show False by (simp add: piece_ok_def)
qed

lemma cells_lowered:
  "q \<in> set (cells (lowered p d)) \<longleftrightarrow> (\<exists>q'\<in>set (cells p). q = (fst q', snd q' + int d))"
  unfolding in_cells_iff lowered_def by (auto simp: Bex_def in_cells_iff)

lemma drop_depth_exists:
  assumes "piece_ok p"
  shows "\<exists>d. (\<forall>i. 1 \<le> i \<and> i \<le> d \<longrightarrow> valid g (lowered p i)) \<and> \<not> valid g (lowered p (Suc d))"
proof -
  from cells_nonempty[OF assms] obtain r c where
    rc: "r < length (shape p)" "c < length (hd (shape p))" "shape p ! r ! c \<noteq> 0" by blast
  let ?q = "(pos_x p + int c, pos_y p + int r)"
  have q: "?q \<in> set (cells p)" using rc unfolding in_cells_iff by blast
  let ?n = "nat (20 - snd ?q)"
  have "(fst ?q, snd ?q + int (Suc ?n)) \<in> set (cells (lowered p (Suc ?n)))"
    using q unfolding cells_lowered by blast
  moreover have "blocked g (fst ?q, snd ?q + int (Suc ?n))"
    by (simp add: blocked_def)
  ultimately have ex: "\<not> valid g (lowered p (Suc ?n))" unfolding valid_def by blast
  let ?d = "LEAST n. \<not> valid g (lowered p (Suc n))"
  have 1: "\<not> valid g (lowered p (Suc ?d))" using ex by (rule LeastI)
  have 2: "\<forall>i. 1 \<le> i \<and> i \<le> ?d \<longrightarrow> valid g (lowered p i)"
  proof (intro allI impI)
    fix i assume i: "1 \<le> i \<and> i \<le> ?d"
    then obtain j where j: "i = Suc j" by (cases i) auto
    with i have "j < ?d" by simp
    from not_less_Least[OF this] show "valid g (lowered p i)" using j by simp
  qed
  from 1 2 show ?thesis by blast
qed

subsection \<open>Writes empty no cell\<close>

lemma keeps_refl: "keeps g g"
  by (simp add: keeps_def)

lemma keeps_trans: "keeps g g1 \<Longrightarrow> keeps g1 g2 \<Longrightarrow> keeps g g2"
  by (simp add: keeps_def)

lemma written_keeps: "written p g g' \<Longrightarrow> keeps g g'"
  by (simp add: written_def keeps_def)

lemma keeps_full:
  assumes "grid_ok g" "grid_ok g'" "keeps g g'" "y < 20" "list_all (\<lambda>c. c \<noteq> None) (g ! y)"
  shows "list_all (\<lambda>c. c \<noteq> None) (g' ! y)"
proof -
  have l: "length (g ! y) = 10" "length (g' ! y) = 10"
    using assms by (simp_all add: grid_ok_nth)
  show ?thesis
    using assms(3,4,5) unfolding list_all_row[OF l(1)] list_all_row[OF l(2)] keeps_def
    by auto
qed

lemma keeps_update:
  assumes "grid_ok g"
  shows "keeps g (g[y := (g ! y)[x := Some col]])"
  unfolding keeps_def
proof (intro allI impI)
  fix y' x' :: nat assume b: "y' < 20" "x' < 10" and c: "g ! y' ! x' \<noteq> None"
  have "length g = 20" "length (g ! y') = 10"
    using grid_ok_length[OF assms] grid_ok_nth[OF assms b(1)] by auto
  then show "g[y := (g ! y)[x := Some col]] ! y' ! x' \<noteq> None"
    using b c by (cases "y' = y"; cases "x' = x") (auto simp: nth_list_update)
qed

lemma highest_block_ok:
  assumes "grid_ok g" "x < 10"
  shows "\<forall>y\<in>set ys. y < 20 \<Longrightarrow> \<exists>h. highest_block g x ys = Some h \<and> h \<le> 20"
proof (induction ys)
  case Nil
  then show ?case by (simp add: GRID_HEIGHT_def)
next
  case (Cons y ys)
  then have "y < 20" by simp
  from grid_get_ok[OF assms(1) this assms(2)] Cons show ?case by auto
qed

lemma valid_positions_ok:
  assumes "grid_ok g"
  shows "\<forall>x\<in>set xs. x < 10 \<Longrightarrow>
         \<exists>ps. valid_positions g xs = Some ps \<and> (\<forall>q\<in>set ps. fst q < 10 \<and> snd q < 20)"
proof (induction xs)
  case Nil
  then show ?case by simp
next
  case (Cons x xs)
  then have "x < 10" by simp
  from highest_block_ok[OF assms this, of "[0..<GRID_HEIGHT]"] obtain h where
    h: "highest_block g x [0..<GRID_HEIGHT] = Some h" "h \<le> 20"
    by (auto simp: GRID_HEIGHT_def)
  from Cons obtain ps where
    ps: "valid_positions g xs = Some ps" "\<forall>q\<in>set ps. fst q < 10 \<and> snd q < 20" by auto
  show ?case using h ps \<open>x < 10\<close> by auto
qed

lemma random_choice_in: "xs \<noteq> [] \<Longrightarrow> random_choice k xs \<in> set xs"
  by (simp add: random_choice_def)

lemma spawn_random_block_ok:
  assumes "state_ok s"
  shows "\<exists>s'. spawn_random_block k1 k2 s = Some s' \<and> state_ok s' \<and>
           keeps (grid s) (grid s') \<and> (\<exists>g. s' = s\<lparr>grid := g\<rparr>)"
proof -
  have g0: "grid_ok (grid s)" using assms by (simp add: state_ok_def)
  from valid_positions_ok[OF g0, of "[0..<GRID_WIDTH]"] obtain ps where
    ps: "valid_positions (grid s) [0..<GRID_WIDTH] = Some ps"
      "\<forall>q\<in>set ps. fst q < 10 \<and> snd q < 20"
    by (auto simp: GRID_WIDTH_def)
  show ?thesis
  proof (cases "ps = []")
    case True
    have "s = s\<lparr>grid := grid s\<rparr>" by simp
    then have "\<exists>g. s = s\<lparr>grid := g\<rparr>" by (rule exI)
    with True ps assms show ?thesis
      by (simp add: spawn_random_block_def keeps_refl)
  next
    case False
    let ?q = "random_choice k1 ps" and ?c = "random_choice k2 TETROMINO_COLORS"
    let ?g = "(grid s)[snd ?q := (grid s ! snd ?q)[fst ?q := Some ?c]]"
    have b: "snd ?q < 20" "fst ?q < 10" using random_choice_in[OF False, of k1] ps(2) by auto
    have set: "grid_set (grid s) (snd ?q) (fst ?q) (Some ?c) = Some ?g"
      by (rule grid_set_ok[OF g0 b])
    have e: "spawn_random_block k1 k2 s = Some (s\<lparr>grid := ?g\<rparr>)"
      using ps(1) False set by (simp add: spawn_random_block_def Let_def)
    have g1: "grid_ok ?g" by (rule grid_ok_update[OF g0])
    have k: "keeps (grid s) ?g" by (rule keeps_update[OF g0])
    have "pending_ok (s\<lparr>grid := ?g\<rparr>)"
      using assms keeps_full[OF g0 g1 k] by (auto simp: state_ok_def pending_ok_def)
    then have "state_ok (s\<lparr>grid := ?g\<rparr>)"
      using assms g1 by (simp add: state_ok_def pieces_ok_def)
    with e k show ?thesis by auto
  qed
qed

lemma finish_line_clear_state_ok:
  assumes "state_ok s"
  shows "\<exists>s'. finish_line_clear s = Some s' \<and> state_ok s' \<and> lines_clearing s' = [] \<and>
           current_piece s' = current_piece s \<and> next_piece s' = next_piece s \<and>
           (lines_clearing s = [] \<longrightarrow> s' = s)"
proof -
  have g0: "grid_ok (grid s)" and r: "\<forall>y\<in>set (lines_clearing s). y < 20"
    using assms by (auto simp: state_ok_def pending_ok_def)
  from finish_line_clear_ok[OF g0 r] obtain g where g: "grid_ok g"
    and e: "finish_line_clear s =
             Some (if lines_clearing s = [] then s
                   else s\<lparr>grid := g,
                          lines_cleared := lines_cleared s + int (length (lines_clearing s)),
                          score := score s + int (length (lines_clearing s)) * 100 * level s,
                          level := (lines_cleared s + int (length (lines_clearing s))) div 10 + 1,
                          fall_speed := max 100 (1000 -
                             ((lines_cleared s + int (length (lines_clearing s))) div 10 + 1 - 1) * 100),
                          lines_clearing := [],
                          clear_animation_time := 0\<rparr>)"
    by blast
  show ?thesis
  proof (cases "lines_clearing s = []")
    case True
    with e assms show ?thesis by simp
  next
    case False
    with e assms g show ?thesis by (simp add: state_ok_def pieces_ok_def pending_ok_def)
  qed
qed

lemma hard_drop_ok:
  assumes "state_ok s" "current_piece s = Some p"
  shows "\<exists>d s'. (\<forall>i. 1 \<le> i \<and> i \<le> d \<longrightarrow> valid (grid s) (lowered p i)) \<and>
           \<not> valid (grid s) (lowered p (Suc d)) \<and>
           hard_drop k s = Some s' \<and>
           place_piece k (s\<lparr>current_piece := Some (lowered p d)\<rparr>) = Some s' \<and>
           state_ok s' \<and> written (lowered p d) (grid s) (grid s') \<and>
           lines_clearing s' = detected (grid s')"
proof -
  have po: "piece_ok p" by (rule state_ok_current[OF assms])
  from drop_depth_exists[OF po, of "grid s"] obtain d where
    d: "\<forall>i. 1 \<le> i \<and> i \<le> d \<longrightarrow> valid (grid s) (lowered p i)"
       "\<not> valid (grid s) (lowered p (Suc d))" by blast
  let ?s1 = "s\<lparr>current_piece := Some (lowered p d)\<rparr>"
  have ok1: "state_ok ?s1" by (rule state_ok_set_current[OF assms(1) piece_ok_lowered[OF po]])
  have c1: "current_piece ?s1 = Some (lowered p d)" by simp
  from place_piece_ok[OF ok1 c1, of k] obtain g s' where
    pl: "written (lowered p d) (grid ?s1) g" "place_piece k ?s1 = Some s'" "state_ok s'"
      "grid s' = g" "lines_clearing s' = detected g" by blast
  have "hard_drop k s = Some s'"
    using hard_drop_lowered[OF assms d, of k] pl(2) by simp
  with d pl show ?thesis by (intro exI[of _ d] exI[of _ s']) simp
qed

subsection \<open>Every operation preserves the invariant\<close>

lemma grows_refl: "state_ok s \<Longrightarrow> grows s s"
  by (simp add: grows_def keeps_refl)

lemma grows_trans: "grows s s1 \<Longrightarrow> grows s1 s2 \<Longrightarrow> grows s s2"
  unfolding grows_def using keeps_trans by blast

lemma grows_same_grid:
  "state_ok s' \<Longrightarrow> grid s' = grid s \<Longrightarrow> lines_clearing s' = lines_clearing s \<Longrightarrow>
   (current_piece s \<noteq> None \<longrightarrow> current_piece s' \<noteq> None) \<Longrightarrow>
   (next_piece s \<noteq> None \<longrightarrow> next_piece s' \<noteq> None) \<Longrightarrow> grows s s'"
  by (simp add: grows_def keeps_refl)

lemma state_ok_times:
  "state_ok s \<Longrightarrow> state_ok (s\<lparr>fall_time := a\<rparr>)"
  "state_ok s \<Longrightarrow> state_ok (s\<lparr>clear_animation_time := b\<rparr>)"
  "state_ok s \<Longrightarrow> state_ok (s\<lparr>random_block_time := c\<rparr>)"
  "state_ok s \<Longrightarrow> state_ok (s\<lparr>random_block_time := c, random_block_interval := i\<rparr>)"
  "state_ok s \<Longrightarrow> state_ok (s\<lparr>paused := e\<rparr>)"
  "state_ok s \<Longrightarrow> state_ok (s\<lparr>random_blocks_enabled := f\<rparr>)"
  by (simp_all add: state_ok_def pieces_ok_def pending_ok_def)

lemma place_piece_grows:
  assumes "state_ok s" "current_piece s = Some p"
  shows "\<exists>s'. place_piece k s = Some s' \<and> grows s s'"
proof -
  from place_piece_ok[OF assms, of k] obtain g s' where
    pl: "written p (grid s) g" "place_piece k s = Some s'" "state_ok s'" "grid s' = g"
      "lines_clearing s' = detected g" "next_piece s' = Some (Tetromino 4 0 (randint_shape k))"
      "\<forall>q. next_piece s = Some q \<longrightarrow> current_piece s' = Some q"
      "next_piece s = None \<longrightarrow> current_piece s' = Some p"
    by auto
  have g0: "grid_ok (grid s)" and pe: "pending_ok s" using assms(1) by (simp_all add: state_ok_def)
  have g1: "grid_ok g" using pl(1) by (simp add: written_def)
  have "set (lines_clearing s) \<subseteq> set (detected g)"
  proof
    fix y assume "y \<in> set (lines_clearing s)"
    then have y: "y < 20" "list_all (\<lambda>c. c \<noteq> None) (grid s ! y)"
      using pe by (auto simp: pending_ok_def)
    from keeps_full[OF g0 g1 written_keeps[OF pl(1)] y] y(1)
    show "y \<in> set (detected g)" by (simp add: detected_def)
  qed
  moreover have "current_piece s' \<noteq> None" using pl(7,8) by (cases "next_piece s") auto
  ultimately have "grows s s'"
    using pl written_keeps[OF pl(1)] by (simp add: grows_def)
  with pl(2) show ?thesis by blast
qed

lemma move_piece_grows:
  assumes "state_ok s"
  shows "\<exists>b s'. move_piece dx dy k s = Some (b, s') \<and> grows s s'"
proof (cases "current_piece s")
  case None
  then show ?thesis using grows_refl[OF assms] by (auto simp: move_piece_def)
next
  case (Some p)
  let ?p1 = "p\<lparr>pos_x := pos_x p + dx, pos_y := pos_y p + dy\<rparr>"
  have "state_ok (s\<lparr>current_piece := Some ?p1\<rparr>)"
    by (rule state_ok_set_current[OF assms piece_ok_move[OF state_ok_current[OF assms Some]]])
  then have 1: "grows s (s\<lparr>current_piece := Some ?p1\<rparr>)"
    by (rule grows_same_grid) simp_all
  from place_piece_grows[OF assms Some, of k] obtain s' where
    2: "place_piece k s = Some s'" "grows s s'" by blast
  show ?thesis
    unfolding move_piece_ok[OF assms Some] using 1 2 grows_refl[OF assms] by auto
qed

lemma rotate_piece_grows:
  assumes "state_ok s"
  shows "\<exists>s'. rotate_piece s = Some s' \<and> grows s s'"
proof (cases "current_piece s")
  case None
  then show ?thesis using grows_refl[OF assms] by (simp add: rotate_piece_def)
next
  case (Some p)
  have "state_ok (s\<lparr>current_piece := Some (p\<lparr>shape := rot90 (shape p)\<rparr>)\<rparr>)"
    by (rule state_ok_set_current[OF assms piece_ok_rot90[OF state_ok_current[OF assms Some]]])
  then have 1: "grows s (s\<lparr>current_piece := Some (p\<lparr>shape := rot90 (shape p)\<rparr>)\<rparr>)"
    by (rule grows_same_grid) simp_all
  show ?thesis
    unfolding rotate_piece_ok[OF assms Some] using 1 grows_refl[OF assms] by simp
qed

lemma hard_drop_grows:
  assumes "state_ok s"
  shows "\<exists>s'. hard_drop k s = Some s' \<and> grows s s'"
proof (cases "current_piece s")
  case None
  then show ?thesis
    using grows_refl[OF assms] by (subst hard_drop.simps) (simp add: move_piece_def)
next
  case (Some p)
  from hard_drop_ok[OF assms Some, of k] obtain d s' where
    h: "hard_drop k s = Some s'"
       "place_piece k (s\<lparr>current_piece := Some (lowered p d)\<rparr>) = Some s'" by blast
  let ?s1 = "s\<lparr>current_piece := Some (lowered p d)\<rparr>"
  have ok1: "state_ok ?s1"
    by (rule state_ok_set_current[OF assms piece_ok_lowered[OF state_ok_current[OF assms Some]]])
  then have 1: "grows s ?s1" by (rule grows_same_grid) simp_all
  from place_piece_grows[OF ok1, of "lowered p d" k] h(2) have "grows ?s1 s'" by simp
  from grows_trans[OF 1 this] h(1) show ?thesis by blast
qed

lemma spawn_random_block_grows:
  assumes "state_ok s"
  shows "\<exists>s'. spawn_random_block k1 k2 s = Some s' \<and> grows s s'"
proof -
  from spawn_random_block_ok[OF assms, of k1 k2] obtain s' g where
    "spawn_random_block k1 k2 s = Some s'" "state_ok s'" "keeps (grid s) (grid s')"
    "s' = s\<lparr>grid := g\<rparr>" by blast
  then show ?thesis by (auto simp: grows_def)
qed

lemma grows_times:
  "grows s s' \<Longrightarrow> grows s (s'\<lparr>fall_time := a\<rparr>)"
  "grows s s' \<Longrightarrow> grows s (s'\<lparr>clear_animation_time := b\<rparr>)"
  "grows s s' \<Longrightarrow> grows s (s'\<lparr>random_block_time := c\<rparr>)"
  "grows s s' \<Longrightarrow> grows s (s'\<lparr>random_block_time := c, random_block_interval := i\<rparr>)"
  "grows s s' \<Longrightarrow> grows s (s'\<lparr>paused := e\<rparr>)"
  "grows s s' \<Longrightarrow> grows s (s'\<lparr>random_blocks_enabled := f\<rparr>)"
  by (simp_all add: grows_def state_ok_times)

lemma update_fall_grows:
  assumes "state_ok s"
  shows "\<exists>s'. update_fall fadd dt d s = Some s' \<and> grows s s'"
proof -
  let ?s1 = "s\<lparr>fall_time := fadd (fall_time s) dt\<rparr>"
  have 1: "grows s ?s1" by (rule grows_times(1)[OF grows_refl[OF assms]])
  then have ok1: "state_ok ?s1" by (simp add: grows_def)
  from move_piece_grows[OF ok1, of 0 1 "draw_shape d"] obtain b s' where
    m: "move_piece 0 1 (draw_shape d) ?s1 = Some (b, s')" "grows ?s1 s'" by blast
  have "grows s (s'\<lparr>fall_time := 0\<rparr>)"
    by (rule grows_times(1)[OF grows_trans[OF 1 m(2)]])
  with m(1) 1 show ?thesis by (simp add: update_fall_def Let_def)
qed

lemma update_random_grows:
  assumes "state_ok s"
  shows "\<exists>s'. update_random fadd dt d s = Some s' \<and> grows s s'"
proof -
  let ?s1 = "s\<lparr>random_block_time := fadd (random_block_time s) dt\<rparr>"
  have 1: "grows s ?s1" by (rule grows_times(3)[OF grows_refl[OF assms]])
  then have ok1: "state_ok ?s1" by (simp add: grows_def)
  from spawn_random_block_grows[OF ok1, of "draw_position d" "draw_color d"] obtain s' where
    m: "spawn_random_block (draw_position d) (draw_color d) ?s1 = Some s'" "grows ?s1 s'" by blast
  have "grows s (s'\<lparr>random_block_time := 0, random_block_interval := randint_interval (draw_interval d)\<rparr>)"
    by (rule grows_times(4)[OF grows_trans[OF 1 m(2)]])
  with m(1) 1 grows_refl[OF assms] show ?thesis by (simp add: update_random_def Let_def)
qed

lemma update_clear_ok:
  assumes "state_ok s"
  shows "\<exists>s'. update_clear fadd dt s = Some s' \<and> state_ok s' \<and>
           current_piece s' = current_piece s \<and> next_piece s' = next_piece s \<and>
           (if compacts fadd dt s
            then finish_line_clear (s\<lparr>clear_animation_time := fadd (clear_animation_time s) dt\<rparr>) = Some s'
                 \<and> lines_clearing s' = []
            else grows s s')"
proof (cases "compacts fadd dt s")
  case True
  let ?s1 = "s\<lparr>clear_animation_time := fadd (clear_animation_time s) dt\<rparr>"
  have "state_ok ?s1" by (rule state_ok_times(2)[OF assms])
  from finish_line_clear_state_ok[OF this] True show ?thesis
    by (auto simp: update_clear_def compacts_def Let_def)
next
  case False
  have "grows s (s\<lparr>clear_animation_time := fadd (clear_animation_time s) dt\<rparr>)"
    by (rule grows_times(2)[OF grows_refl[OF assms]])
  with False grows_refl[OF assms] assms show ?thesis
    by (auto simp: update_clear_def compacts_def Let_def state_ok_times)
qed

lemma grows_state_ok: "grows s s' \<Longrightarrow> state_ok s'"
  by (simp add: grows_def)

lemma update_ok:
  assumes "state_ok s"
  shows "\<exists>s1 s'. update fadd dt d s = Some s' \<and> state_ok s' \<and>
           (current_piece s \<noteq> None \<longrightarrow> current_piece s' \<noteq> None) \<and>
           (next_piece s \<noteq> None \<longrightarrow> next_piece s' \<noteq> None) \<and>
           update_fall fadd dt d s = Some s1 \<and>
           ((game_over s \<or> paused s \<or> \<not> compacts fadd dt s1) \<longrightarrow> grows s s')"
proof -
  from update_fall_grows[OF assms, of fadd dt d] obtain s1 where
    f: "update_fall fadd dt d s = Some s1" "grows s s1" by blast
  have ok1: "state_ok s1" by (rule grows_state_ok[OF f(2)])
  from update_clear_ok[OF ok1, of fadd dt] obtain s2 where
    c: "update_clear fadd dt s1 = Some s2" "state_ok s2"
       "current_piece s2 = current_piece s1" "next_piece s2 = next_piece s1"
       "\<not> compacts fadd dt s1 \<longrightarrow> grows s1 s2"
    by (auto split: if_splits)
  from update_random_grows[OF c(2), of fadd dt d] obtain s3 where
    r: "update_random fadd dt d s2 = Some s3" "grows s2 s3" by blast
  show ?thesis
  proof (cases "game_over s \<or> paused s")
    case True
    then have "update fadd dt d s = Some s" by (simp add: update_def)
    with True f(1) assms grows_refl[OF assms] show ?thesis by auto
  next
    case False
    then have u: "update fadd dt d s = Some s3" using f(1) c(1) r(1) by (simp add: update_def)
    have p: "(current_piece s \<noteq> None \<longrightarrow> current_piece s3 \<noteq> None) \<and>
             (next_piece s \<noteq> None \<longrightarrow> next_piece s3 \<noteq> None)"
      using f(2) c(3,4) r(2) by (simp add: grows_def)
    have "\<not> compacts fadd dt s1 \<longrightarrow> grows s s3"
      using grows_trans[OF f(2)] grows_trans[OF _ r(2)] c(5) by blast
    with u p f(1) False grows_state_ok[OF r(2)] show ?thesis by auto
  qed
qed

lemma state_ok_initial:
  "state_ok \<lparr>grid = replicate GRID_HEIGHT (replicate GRID_WIDTH None),
             current_piece = None, next_piece = None, score = 0, lines_cleared = 0,
             level = 1, game_over = False, paused = False, fall_time = 0,
             fall_speed = 1000, random_block_time = 0, random_block_interval = i,
             random_blocks_enabled = False, lines_clearing = [],
             clear_animation_time = 0, clear_animation_duration = 800\<rparr>"
  using grid_ok_empty
  by (simp add: state_ok_def pieces_ok_def pending_ok_def GRID_HEIGHT_def GRID_WIDTH_def)

lemma init_game_ok:
  "\<exists>s. init_game k1 k2 k3 = Some s \<and> state_ok s \<and> present s \<and> lines_clearing s = [] \<and>
       grid s = replicate 20 (replicate 10 None)"
proof -
  let ?s0 = "\<lparr>grid = replicate GRID_HEIGHT (replicate GRID_WIDTH None),
             current_piece = None, next_piece = None, score = 0, lines_cleared = 0,
             level = 1, game_over = False, paused = False, fall_time = 0,
             fall_speed = 1000, random_block_time = 0, random_block_interval = randint_interval k3,
             random_blocks_enabled = False, lines_clearing = [],
             clear_animation_time = 0, clear_animation_duration = 800\<rparr>"
  have ok0: "state_ok ?s0" by (rule state_ok_initial)
  from spawn_new_piece_ok[OF state_okD(1)[OF ok0] state_okD(2)[OF ok0], of k1] obtain s1 where
    s1: "spawn_new_piece k1 ?s0 = Some s1" "pieces_ok s1"
        "s1 = ?s0\<lparr>next_piece := Some (Tetromino 4 0 (randint_shape k1))\<rparr>"
    by auto
  have g1: "grid_ok (grid s1)" using s1(3) state_okD(1)[OF ok0] by simp
  from spawn_new_piece_ok[OF g1 s1(2), of k2] obtain s2 where
    s2: "spawn_new_piece k2 s1 = Some s2" "pieces_ok s2"
        "s2 = s1\<lparr>current_piece := Some (Tetromino 4 0 (randint_shape k1)),
                  next_piece := Some (Tetromino 4 0 (randint_shape k2)),
                  game_over := (game_over s1 \<or>
                      is_valid_position (grid s1) (Tetromino 4 0 (randint_shape k1)) = Some False)\<rparr>"
    using s1(3) by auto
  have "init_game k1 k2 k3 = Some s2" using s1(1) s2(1) by (simp add: init_game_def)
  moreover have "state_ok s2"
    using s2(2) g1 s2(3) s1(3) by (simp add: state_ok_def pending_ok_def)
  moreover have "present s2" using s2(3) by (simp add: present_def)
  moreover have "lines_clearing s2 = []" using s2(3) s1(3) by simp
  moreover have "grid s2 = replicate 20 (replicate 10 None)"
    using s2(3) s1(3) by (simp add: GRID_HEIGHT_def GRID_WIDTH_def)
  ultimately show ?thesis by blast
qed

lemma handle_key_ok:
  assumes "state_ok s" "present s"
  shows "\<exists>s'. handle_key ky d s = Some s' \<and> state_ok s' \<and> present s' \<and>
           (ky \<noteq> K_r \<longrightarrow> grows s s') \<and>
           (ky = K_r \<longrightarrow> lines_clearing s' = [] \<and> grid s' = replicate 20 (replicate 10 None))"
proof -
  have pr: "grows s s' \<Longrightarrow> present s'" for s'
    using assms(2) by (simp add: grows_def present_def)
  have fin: "grows s s' \<Longrightarrow> state_ok s' \<and> present s' \<and> (ky \<noteq> K_r \<longrightarrow> grows s s')" for s'
    using pr grows_state_ok by blast
  obtain b1 m1 where m1: "move_piece (- 1) 0 (draw_shape d) s = Some (b1, m1)" "grows s m1"
    using move_piece_grows[OF assms(1)] by blast
  obtain b2 m2 where m2: "move_piece 1 0 (draw_shape d) s = Some (b2, m2)" "grows s m2"
    using move_piece_grows[OF assms(1)] by blast
  obtain b3 m3 where m3: "move_piece 0 1 (draw_shape d) s = Some (b3, m3)" "grows s m3"
    using move_piece_grows[OF assms(1)] by blast
  obtain r where r: "rotate_piece s = Some r" "grows s r"
    using rotate_piece_grows[OF assms(1)] by blast
  obtain h where h: "hard_drop (draw_shape d) s = Some h" "grows s h"
    using hard_drop_grows[OF assms(1)] by blast
  have t: "grows s (s\<lparr>paused := \<not> paused s\<rparr>)"
          "grows s (s\<lparr>random_blocks_enabled := \<not> random_blocks_enabled s\<rparr>)"
    using grows_times(5,6)[OF grows_refl[OF assms(1)]] by auto
  show ?thesis
  proof (cases "ky = K_r")
    case True
    with init_game_ok[of "draw_shape d" "draw_next d" "draw_interval d"] show ?thesis
      by (auto simp: handle_key_def)
  next
    case False
    then show ?thesis
      using fin[OF m1(2)] fin[OF m2(2)] fin[OF m3(2)] fin[OF r(2)] fin[OF h(2)]
        fin[OF t(1)] fin[OF t(2)] fin[OF grows_refl[OF assms(1)]] m1(1) m2(1) m3(1) r(1) h(1)
      by (simp add: handle_key_def)
  qed
qed

lemma reachable_ok: "reachable s \<Longrightarrow> state_ok s \<and> present s"
proof (induction rule: reachable.induct)
  case (reach_init k1 k2 k3 s)
  with init_game_ok[of k1 k2 k3] show ?case by simp
next
  case (reach_key s ky d s')
  with handle_key_ok[of s ky d] show ?case by auto
next
  case (reach_update s fadd dt d s')
  with update_ok[of s fadd dt d] show ?case by (auto simp: present_def)
qed

subsection \<open>The concrete runs\<close>

text \<open>
  The runs are evaluated by rewriting with the code equations.
\<close>

lemma init_fresh: "init_game 1 2 0 = Some fresh"
  by code_simp

lemma reachable_fresh: "reachable fresh"
  by (rule reach_init[OF init_fresh])

lemma reachable_replay: "reachable s \<Longrightarrow> replay fadd evs s = Some s' \<Longrightarrow> reachable s'"
proof (induction evs arbitrary: s)
  case Nil
  then show ?case by simp
next
  case (Cons ev evs)
  show ?case
  proof (cases ev)
    case (Key ky d)
    with Cons.prems(2) obtain s1 where
      s1: "handle_key ky d s = Some s1" "replay fadd evs s1 = Some s'"
      by (auto split: option.splits)
    from Cons.IH[OF reach_key[OF Cons.prems(1) s1(1)] s1(2)] show ?thesis .
  next
    case (Tick dt d)
    with Cons.prems(2) obtain s1 where
      s1: "update fadd dt d s = Some s1" "replay fadd evs s1 = Some s'"
      by (auto split: option.splits)
    from Cons.IH[OF reach_update[OF Cons.prems(1) s1(1)] s1(2)] show ?thesis .
  qed
qed

lemma reachable_from_init:
  "(case init_game k1 k2 k3 of None \<Rightarrow> None | Some s \<Rightarrow> replay fadd evs s) = Some s' \<Longrightarrow> reachable s'"
  by (auto split: option.splits intro: reachable_replay reach_init)

lemma run_build_overhang:
  "(case init_game 0 0 0 of None \<Rightarrow> None | Some s \<Rightarrow> replay (+) build_overhang s) = Some overhang"
  by code_simp

lemma reachable_overhang: "reachable overhang"
  by (rule reachable_from_init[OF run_build_overhang])

lemma state_ok_fresh: "state_ok fresh"
  using reachable_ok[OF reachable_fresh] by simp

lemma Tetromino_piece_ok: "i < 7 \<Longrightarrow> piece_ok (Tetromino a b i)"
  using shapes_ok[of i] by (simp add: piece_ok_def Tetromino_def)

lemma state_ok_on_floor: "state_ok on_floor"
  unfolding on_floor_def
  by (rule state_ok_set_current[OF state_ok_fresh Tetromino_piece_ok]) simp

lemma valid_empty_mono:
  assumes "\<forall>y<20. \<forall>x<10. g ! y ! x = None" "valid g (lowered p j)" "i \<le> j"
  shows "valid g (lowered p i)"
  unfolding valid_def
proof
  fix q assume "q \<in> set (cells (lowered p i))"
  then obtain q' where q': "q' \<in> set (cells p)" "q = (fst q', snd q' + int i)"
    unfolding cells_lowered by blast
  then have "(fst q', snd q' + int j) \<in> set (cells (lowered p j))"
    unfolding cells_lowered by blast
  with assms(2) have nb: "\<not> blocked g (fst q', snd q' + int j)" by (simp add: valid_def)
  then have b: "0 \<le> fst q'" "fst q' < 10" "snd q' + int j < 20" by (auto simp: blocked_def)
  have "snd q' + int i \<ge> 0 \<Longrightarrow> g ! nat (snd q' + int i) ! nat (fst q') = None"
    using assms(1,3) b by simp
  then show "\<not> blocked g q" using b assms(3) unfolding q'(2) blocked_def by auto
qed

lemma run_five_squares:
  "(case init_game 1 1 0 of None \<Rightarrow> None | Some s \<Rightarrow> replay (+) five_squares s) = Some two_rows_pending"
  by code_simp

lemma reachable_two_rows_pending: "reachable two_rows_pending"
  by (rule reachable_from_init[OF run_five_squares])

lemma drop_on_pending: "handle_key K_SPACE (draw 3) two_rows_pending = Some stacked"
  by code_simp

lemma reachable_stacked: "reachable stacked"
  by (rule reach_key[OF reachable_two_rows_pending drop_on_pending])

lemma run_resting:
  "replay (+) (replicate 16 (Key K_DOWN (draw 1)) @ [Tick 500 (draw 1)]) two_rows_pending = Some resting"
  by code_simp

lemma reachable_resting: "reachable resting"
  by (rule reachable_replay[OF reachable_two_rows_pending run_resting])

lemma state_ok_above_top: "state_ok above_top"
  unfolding above_top_def
  by (rule state_ok_set_current[OF state_ok_fresh Tetromino_piece_ok]) simp

subsection \<open>The parts of \<open>update\<close>\<close>

lemma update_random_same:
  assumes "state_ok s" "update_random fadd dt d s = Some s'"
  shows "lines_clearing s' = lines_clearing s \<and> current_piece s' = current_piece s \<and>
         next_piece s' = next_piece s"
proof -
  let ?s1 = "s\<lparr>random_block_time := fadd (random_block_time s) dt\<rparr>"
  have ok1: "state_ok ?s1" by (rule state_ok_times(3)[OF assms(1)])
  from spawn_random_block_ok[OF ok1, of "draw_position d" "draw_color d"] obtain s2 g where
    "spawn_random_block (draw_position d) (draw_color d) ?s1 = Some s2" "s2 = ?s1\<lparr>grid := g\<rparr>"
    by blast
  with assms(2) show ?thesis
    by (auto simp: update_random_def Let_def split: if_splits)
qed

lemma update_parts:
  assumes "state_ok s" "\<not> game_over s" "\<not> paused s"
  shows "\<exists>s1 s2 s'. update_fall fadd dt d s = Some s1 \<and> grows s s1 \<and>
           update_clear fadd dt s1 = Some s2 \<and> state_ok s2 \<and>
           current_piece s2 = current_piece s1 \<and> next_piece s2 = next_piece s1 \<and>
           (compacts fadd dt s1 \<longrightarrow> lines_clearing s2 = []) \<and>
           (\<not> compacts fadd dt s1 \<longrightarrow> grows s1 s2) \<and>
           update_random fadd dt d s2 = Some s' \<and> grows s2 s' \<and>
           lines_clearing s' = lines_clearing s2 \<and> current_piece s' = current_piece s2 \<and>
           next_piece s' = next_piece s2 \<and>
           update fadd dt d s = Some s'"
proof -
  from update_fall_grows[OF assms(1), of fadd dt d] obtain s1 where
    f: "update_fall fadd dt d s = Some s1" "grows s s1" by blast
  have ok1: "state_ok s1" by (rule grows_state_ok[OF f(2)])
  from update_clear_ok[OF ok1, of fadd dt] obtain s2 where
    c: "update_clear fadd dt s1 = Some s2" "state_ok s2"
       "current_piece s2 = current_piece s1" "next_piece s2 = next_piece s1"
       "compacts fadd dt s1 \<longrightarrow> lines_clearing s2 = []"
       "\<not> compacts fadd dt s1 \<longrightarrow> grows s1 s2"
    by (auto split: if_splits)
  from update_random_grows[OF c(2), of fadd dt d] obtain s3 where
    r: "update_random fadd dt d s2 = Some s3" "grows s2 s3" by blast
  note same = update_random_same[OF c(2) r(1)]
  have u: "update fadd dt d s = Some s3" using assms(2,3) f(1) c(1) r(1) by (simp add: update_def)
  show ?thesis
    apply (rule exI[of _ s1], rule exI[of _ s2], rule exI[of _ s3])
    using f c r same u by simp
qed

lemma grows_keeps: "grows s s' \<Longrightarrow> keeps (grid s) (grid s') \<and> set (lines_clearing s) \<subseteq> set (lines_clearing s')"
  by (simp add: grows_def)

subsection \<open>One pending row, and the score\<close>

lemma delete_one_row:
  assumes "y < length g"
  shows "map ((!) g) (filter (\<lambda>i. i \<noteq> y) [0..<length g]) = take y g @ drop (Suc y) g"
proof -
  have "[0..<length g] = take y [0..<length g] @ drop y [0..<length g]"
    by (rule append_take_drop_id[symmetric])
  also have "take y [0..<length g] = [0..<y]" using assms by simp
  also have "drop y [0..<length g] = y # [Suc y..<length g]"
    using assms by (simp add: upt_conv_Cons)
  finally have a: "[0..<length g] = [0..<y] @ y # [Suc y..<length g]" .
  have f1: "filter (\<lambda>i. i \<noteq> y) [0..<y] = [0..<y]" by (rule filter_True) auto
  have f2: "filter (\<lambda>i. i \<noteq> y) [Suc y..<length g] = [Suc y..<length g]"
    by (rule filter_True) auto
  have m1: "map ((!) g) [0..<y] = take y g"
    by (rule nth_equalityI) (use assms in auto)
  have m2: "map ((!) g) [Suc y..<length g] = drop (Suc y) g"
    by (rule nth_equalityI) (use assms in auto)
  have "filter (\<lambda>i. i \<noteq> y) [0..<length g] = [0..<y] @ [Suc y..<length g]"
    by (subst a) (simp add: f1 f2)
  then show ?thesis by (simp add: m1 m2)
qed

lemma delete_rows_single:
  "y < length g \<Longrightarrow> delete_rows (rev (sort [y])) g = Some (removeRows [y] g)"
  by (simp add: removeRows_def delete_one_row GRID_WIDTH_def)

lemma finish_line_clear_scoring:
  assumes "state_ok s" "lines_clearing s \<noteq> []"
  shows "\<exists>s'. finish_line_clear s = Some s' \<and>
           score s' = score s + int (length (lines_clearing s)) * 100 * level s \<and>
           lines_cleared s' = lines_cleared s + int (length (lines_clearing s)) \<and>
           level s' = lines_cleared s' div 10 + 1 \<and>
           fall_speed s' = max 100 (1000 - (level s' - 1) * 100) \<and>
           lines_clearing s' = [] \<and> clear_animation_time s' = 0"
proof -
  have g0: "grid_ok (grid s)" and r: "\<forall>y\<in>set (lines_clearing s). y < 20"
    using assms(1) by (auto simp: state_ok_def pending_ok_def)
  from finish_line_clear_ok[OF g0 r] assms(2) show ?thesis by auto
qed

lemma update_fall_cases:
  assumes "state_ok s" "current_piece s = Some p" "next_piece s = Some q"
  shows "\<exists>s1. update_fall fadd dt d s = Some s1 \<and>
     (fadd (fall_time s) dt < real_of_int (fall_speed s) \<longrightarrow>
        current_piece s1 = Some p \<and> next_piece s1 = Some q) \<and>
     (fadd (fall_time s) dt \<ge> real_of_int (fall_speed s) \<and> valid (grid s) (lowered p 1) \<longrightarrow>
        current_piece s1 = Some (lowered p 1) \<and> next_piece s1 = Some q) \<and>
     (fadd (fall_time s) dt \<ge> real_of_int (fall_speed s) \<and> \<not> valid (grid s) (lowered p 1) \<longrightarrow>
        current_piece s1 = Some q \<and>
        next_piece s1 = Some (Tetromino 4 0 (randint_shape (draw_shape d))))"
proof -
  let ?s0 = "s\<lparr>fall_time := fadd (fall_time s) dt\<rparr>"
  have ok0: "state_ok ?s0" by (rule state_ok_times(1)[OF assms(1)])
  have c0: "current_piece ?s0 = Some p" "next_piece ?s0 = Some q" using assms(2,3) by simp_all
  from place_piece_ok[OF ok0 c0(1), of "draw_shape d"] obtain s2 where
    pl: "place_piece (draw_shape d) ?s0 = Some s2"
        "next_piece s2 = Some (Tetromino 4 0 (randint_shape (draw_shape d)))"
        "current_piece s2 = Some q"
    using c0(2) by auto
  have m: "move_piece 0 1 (draw_shape d) ?s0 =
           (if valid (grid s) (lowered p 1)
            then Some (True, ?s0\<lparr>current_piece := Some (lowered p 1)\<rparr>)
            else Some (False, s2))"
    using move_piece_ok[OF ok0 c0(1), of 0 1 "draw_shape d"] pl(1)
    by (simp add: lowered_def)
  show ?thesis
    unfolding update_fall_def Let_def using m pl(2,3) assms(2,3) by auto
qed

subsection \<open>The restart key\<close>

lemma init_two_bars: "init_game 0 0 0 = Some restarted"
  by code_simp

lemma restart_key: "handle_key K_r (draw 0) s = init_game 0 0 0"
  by (simp add: handle_key_def draw_def)

subsection \<open>What each operation does to the two pieces\<close>

lemma place_piece_spawns:
  assumes "state_ok s" "current_piece s = Some p" "next_piece s = Some q"
  shows "\<exists>s'. place_piece k s = Some s' \<and>
           current_piece s' = Some q \<and>
           next_piece s' = Some (Tetromino 4 0 (randint_shape k)) \<and>
           keeps (grid s) (grid s') \<and> set (lines_clearing s) \<subseteq> set (lines_clearing s')"
proof -
  from place_piece_grows[OF assms(1,2), of k] obtain s' where
    a: "place_piece k s = Some s'" "grows s s'" by blast
  from place_piece_ok[OF assms(1,2), of k] a(1) assms(3)
  have "current_piece s' = Some q" "next_piece s' = Some (Tetromino 4 0 (randint_shape k))"
    by auto
  with a grows_keeps show ?thesis by blast
qed

lemma side_move_cases:
  assumes "state_ok s" "current_piece s = Some p" "next_piece s = Some q"
  shows "\<exists>s'. map_option snd (move_piece dx 0 k s) = Some s' \<and> next_piece s' = Some q \<and>
           current_piece s' =
             Some (if is_valid_position (grid s) (p\<lparr>pos_x := pos_x p + dx\<rparr>) = Some True
                   then p\<lparr>pos_x := pos_x p + dx\<rparr> else p)"
proof -
  let ?p1 = "p\<lparr>pos_x := pos_x p + dx\<rparr>"
  have "rect (shape ?p1)" using state_ok_current[OF assms(1,2)] by (simp add: piece_ok_def)
  from is_valid_position_valid[OF state_okD(1)[OF assms(1)] this]
  have v: "is_valid_position (grid s) ?p1 = Some (valid (grid s) ?p1)" .
  show ?thesis
    using move_piece_ok[OF assms(1,2), of dx 0 k] assms(2,3) by (auto simp: v)
qed

lemma down_move_cases:
  assumes "state_ok s" "current_piece s = Some p" "next_piece s = Some q"
  shows "\<exists>s'. map_option snd (move_piece 0 1 k s) = Some s' \<and>
     (is_valid_position (grid s) (p\<lparr>pos_y := pos_y p + 1\<rparr>) = Some True \<longrightarrow>
        current_piece s' = Some (p\<lparr>pos_y := pos_y p + 1\<rparr>) \<and> next_piece s' = Some q) \<and>
     (is_valid_position (grid s) (p\<lparr>pos_y := pos_y p + 1\<rparr>) = Some False \<longrightarrow>
        place_piece k s = Some s' \<and> current_piece s' = Some q \<and>
        next_piece s' = Some (Tetromino 4 0 (randint_shape k)))"
proof -
  let ?p1 = "p\<lparr>pos_y := pos_y p + 1\<rparr>"
  have "rect (shape ?p1)" using state_ok_current[OF assms(1,2)] by (simp add: piece_ok_def)
  from is_valid_position_valid[OF state_okD(1)[OF assms(1)] this]
  have v: "is_valid_position (grid s) ?p1 = Some (valid (grid s) ?p1)" .
  from place_piece_spawns[OF assms, of k] obtain s2 where
    pl: "place_piece k s = Some s2" "current_piece s2 = Some q"
        "next_piece s2 = Some (Tetromino 4 0 (randint_shape k))" by blast
  show ?thesis
    using move_piece_ok[OF assms(1,2), of 0 1 k] assms(2,3) pl by (auto simp: v)
qed

lemma rotate_cases:
  assumes "state_ok s" "current_piece s = Some p" "next_piece s = Some q"
  shows "\<exists>s' p'. rotate_piece s = Some s' \<and> rotate_tetromino p = Some p' \<and>
           next_piece s' = Some q \<and>
           current_piece s' =
             Some (if is_valid_position (grid s) p' = Some True then p' else p)"
proof -
  let ?p1 = "p\<lparr>shape := rot90 (shape p)\<rparr>"
  have r: "rect (shape p)" using state_ok_current[OF assms(1,2)] by (simp add: piece_ok_def)
  have "rect (shape ?p1)" using rect_rot90[OF r] by simp
  from is_valid_position_valid[OF state_okD(1)[OF assms(1)] this]
  have v: "is_valid_position (grid s) ?p1 = Some (valid (grid s) ?p1)" .
  have rot: "rotate_tetromino p = Some ?p1" by (simp add: rotate_tetromino_def rotate_shape_rect[OF r])
  show ?thesis
    using rotate_piece_ok[OF assms(1,2)] assms(2,3) rot by (simp add: v)
qed

lemma hard_drop_spawns:
  assumes "state_ok s" "current_piece s = Some p" "next_piece s = Some q"
  shows "\<exists>n s'. hard_drop k s = Some s' \<and>
           place_piece k (s\<lparr>current_piece := Some (p\<lparr>pos_y := pos_y p + int n\<rparr>)\<rparr>) = Some s' \<and>
           current_piece s' = Some q \<and>
           next_piece s' = Some (Tetromino 4 0 (randint_shape k))"
proof -
  from hard_drop_ok[OF assms(1,2), of k] obtain n s' where
    h: "hard_drop k s = Some s'"
       "place_piece k (s\<lparr>current_piece := Some (lowered p n)\<rparr>) = Some s'" by blast
  let ?s1 = "s\<lparr>current_piece := Some (lowered p n)\<rparr>"
  have ok1: "state_ok ?s1"
    by (rule state_ok_set_current[OF assms(1) piece_ok_lowered[OF state_ok_current[OF assms(1,2)]]])
  from place_piece_spawns[OF ok1, of "lowered p n" q k] h(2) assms(3)
  have "current_piece s' = Some q" "next_piece s' = Some (Tetromino 4 0 (randint_shape k))"
    by auto
  with h show ?thesis unfolding lowered_def by blast
qed

section \<open>The claims\<close>

text \<open>
  Claim C1, as amended. In a reachable state with a non-empty \<open>lines_clearing\<close>, the
  two pieces are replaced by a placement or by the restart key, and by nothing else.
  \<open>place_piece\<close> promotes the next piece to current and creates a new next piece at
  once; it empties no cell and every pending row stays in \<open>lines_clearing\<close>.
  \<open>finish_line_clear\<close> empties \<open>lines_clearing\<close> and changes neither piece. A call of
  \<open>update\<close> returns the state as it is when the game is over or paused; otherwise,
  with \<open>fadd\<close> the float addition, it leaves both pieces as they are when the sum
  \<open>fadd (fall_time s) dt\<close> is below \<open>fall_speed\<close>, it lowers the current piece by one
  row and keeps the next piece when the sum has reached \<open>fall_speed\<close> and the step down
  is valid, and it places the piece, promoting the next one, when the step down is
  invalid. The restart key builds a new game, with an empty grid and no pending row. The
  keys p and b and a key without binding change neither piece, and no key does when the
  game is over or paused. Otherwise the left, right and up keys keep the next piece and
  replace the current piece by the shifted or rotated one when that one is valid; the
  down key lowers the current piece when the step down is valid and places it when it is
  not; the space key places the current piece some rows further down.
\<close>

theorem spawn_only_by_placement:
  assumes "reachable s" "lines_clearing s \<noteq> []"
    and "current_piece s = Some p" "next_piece s = Some q"
  shows
   "(\<exists>s'. place_piece k s = Some s' \<and>
          current_piece s' = Some q \<and>
          next_piece s' = Some (Tetromino 4 0 (randint_shape k)) \<and>
          keeps (grid s) (grid s') \<and> set (lines_clearing s) \<subseteq> set (lines_clearing s')) \<and>
    (\<exists>s'. finish_line_clear s = Some s' \<and> lines_clearing s' = [] \<and>
          current_piece s' = Some p \<and> next_piece s' = Some q) \<and>
    (game_over s \<or> paused s \<longrightarrow> update fadd dt d s = Some s) \<and>
    (\<not> game_over s \<and> \<not> paused s \<longrightarrow>
       (\<exists>s'. update fadd dt d s = Some s' \<and>
          (fadd (fall_time s) dt < real_of_int (fall_speed s) \<longrightarrow>
             current_piece s' = Some p \<and> next_piece s' = Some q) \<and>
          (fadd (fall_time s) dt \<ge> real_of_int (fall_speed s) \<and>
           is_valid_position (grid s) (p\<lparr>pos_y := pos_y p + 1\<rparr>) = Some True \<longrightarrow>
             current_piece s' = Some (p\<lparr>pos_y := pos_y p + 1\<rparr>) \<and> next_piece s' = Some q) \<and>
          (fadd (fall_time s) dt \<ge> real_of_int (fall_speed s) \<and>
           is_valid_position (grid s) (p\<lparr>pos_y := pos_y p + 1\<rparr>) = Some False \<longrightarrow>
             current_piece s' = Some q \<and>
             next_piece s' = Some (Tetromino 4 0 (randint_shape (draw_shape d)))))) \<and>
    handle_key K_r d s = init_game (draw_shape d) (draw_next d) (draw_interval d) \<and>
    (\<exists>s'. handle_key K_r d s = Some s' \<and> lines_clearing s' = [] \<and>
          grid s' = replicate 20 (replicate 10 None)) \<and>
    handle_key K_p d s = Some (s\<lparr>paused := \<not> paused s\<rparr>) \<and>
    handle_key K_b d s = Some (s\<lparr>random_blocks_enabled := \<not> random_blocks_enabled s\<rparr>) \<and>
    handle_key K_other d s = Some s \<and>
    (game_over s \<or> paused s \<longrightarrow>
       handle_key K_LEFT d s = Some s \<and> handle_key K_RIGHT d s = Some s \<and>
       handle_key K_DOWN d s = Some s \<and> handle_key K_UP d s = Some s \<and>
       handle_key K_SPACE d s = Some s) \<and>
    (\<not> game_over s \<and> \<not> paused s \<longrightarrow>
       (\<exists>s'. handle_key K_LEFT d s = Some s' \<and> next_piece s' = Some q \<and>
             current_piece s' =
               Some (if is_valid_position (grid s) (p\<lparr>pos_x := pos_x p - 1\<rparr>) = Some True
                     then p\<lparr>pos_x := pos_x p - 1\<rparr> else p)) \<and>
       (\<exists>s'. handle_key K_RIGHT d s = Some s' \<and> next_piece s' = Some q \<and>
             current_piece s' =
               Some (if is_valid_position (grid s) (p\<lparr>pos_x := pos_x p + 1\<rparr>) = Some True
                     then p\<lparr>pos_x := pos_x p + 1\<rparr> else p)) \<and>
       (\<exists>s' p'. handle_key K_UP d s = Some s' \<and> rotate_tetromino p = Some p' \<and>
             next_piece s' = Some q \<and>
             current_piece s' =
               Some (if is_valid_position (grid s) p' = Some True then p' else p)) \<and>
       (\<exists>s'. handle_key K_DOWN d s = Some s' \<and>
          (is_valid_position (grid s) (p\<lparr>pos_y := pos_y p + 1\<rparr>) = Some True \<longrightarrow>
             current_piece s' = Some (p\<lparr>pos_y := pos_y p + 1\<rparr>) \<and> next_piece s' = Some q) \<and>
          (is_valid_position (grid s) (p\<lparr>pos_y := pos_y p + 1\<rparr>) = Some False \<longrightarrow>
             place_piece (draw_shape d) s = Some s' \<and> current_piece s' = Some q \<and>
             next_piece s' = Some (Tetromino 4 0 (randint_shape (draw_shape d))))) \<and>
       (\<exists>n s'. handle_key K_SPACE d s = Some s' \<and>
          place_piece (draw_shape d) (s\<lparr>current_piece := Some (p\<lparr>pos_y := pos_y p + int n\<rparr>)\<rparr>)
            = Some s' \<and>
          current_piece s' = Some q \<and>
          next_piece s' = Some (Tetromino 4 0 (randint_shape (draw_shape d)))))"
proof -
  from reachable_ok[OF assms(1)] have ok: "state_ok s" and pr: "present s" by simp_all
  have po: "piece_ok p" by (rule state_ok_current[OF ok assms(3)])
  have v: "is_valid_position (grid s) (p\<lparr>pos_y := pos_y p + 1\<rparr>) = Some (valid (grid s) (lowered p 1))"
    using is_valid_position_valid[OF state_okD(1)[OF ok] piece_ok_rect[OF piece_ok_lowered[OF po]], of 1]
    by (simp add: lowered_def)
  have l1: "lowered p 1 = p\<lparr>pos_y := pos_y p + 1\<rparr>" by (simp add: lowered_def)
  have a: "\<exists>s'. place_piece k s = Some s' \<and>
          current_piece s' = Some q \<and>
          next_piece s' = Some (Tetromino 4 0 (randint_shape k)) \<and>
          keeps (grid s) (grid s') \<and> set (lines_clearing s) \<subseteq> set (lines_clearing s')"
    by (rule place_piece_spawns[OF ok assms(3,4)])
  from finish_line_clear_state_ok[OF ok] assms(3,4)
  have b: "\<exists>s'. finish_line_clear s = Some s' \<and> lines_clearing s' = [] \<and>
              current_piece s' = Some p \<and> next_piece s' = Some q"
    by auto
  have c0: "game_over s \<or> paused s \<longrightarrow> update fadd dt d s = Some s"
    by (simp add: update_def)
  have c: "\<exists>s'. update fadd dt d s = Some s' \<and>
          (fadd (fall_time s) dt < real_of_int (fall_speed s) \<longrightarrow>
             current_piece s' = Some p \<and> next_piece s' = Some q) \<and>
          (fadd (fall_time s) dt \<ge> real_of_int (fall_speed s) \<and>
           is_valid_position (grid s) (p\<lparr>pos_y := pos_y p + 1\<rparr>) = Some True \<longrightarrow>
             current_piece s' = Some (p\<lparr>pos_y := pos_y p + 1\<rparr>) \<and> next_piece s' = Some q) \<and>
          (fadd (fall_time s) dt \<ge> real_of_int (fall_speed s) \<and>
           is_valid_position (grid s) (p\<lparr>pos_y := pos_y p + 1\<rparr>) = Some False \<longrightarrow>
             current_piece s' = Some q \<and>
             next_piece s' = Some (Tetromino 4 0 (randint_shape (draw_shape d))))"
    if ng: "\<not> game_over s \<and> \<not> paused s"
  proof -
    from ng have ng': "\<not> game_over s" "\<not> paused s" by simp_all
    from update_parts[OF ok ng', of fadd dt d] obtain s1 s' where
      u: "update_fall fadd dt d s = Some s1" "update fadd dt d s = Some s'"
         "current_piece s' = current_piece s1" "next_piece s' = next_piece s1"
      by (elim exE conjE) simp
    from update_fall_cases[OF ok assms(3,4), of fadd dt d] u(1)
    have "(fadd (fall_time s) dt < real_of_int (fall_speed s) \<longrightarrow>
        current_piece s1 = Some p \<and> next_piece s1 = Some q) \<and>
     (fadd (fall_time s) dt \<ge> real_of_int (fall_speed s) \<and> valid (grid s) (lowered p 1) \<longrightarrow>
        current_piece s1 = Some (lowered p 1) \<and> next_piece s1 = Some q) \<and>
     (fadd (fall_time s) dt \<ge> real_of_int (fall_speed s) \<and> \<not> valid (grid s) (lowered p 1) \<longrightarrow>
        current_piece s1 = Some q \<and>
        next_piece s1 = Some (Tetromino 4 0 (randint_shape (draw_shape d))))"
      by simp
    then show ?thesis unfolding v using u(2,3,4) l1 by simp
  qed
  have r1: "handle_key K_r d s = init_game (draw_shape d) (draw_next d) (draw_interval d)"
    by (simp add: handle_key_def)
  have r2: "\<exists>s'. handle_key K_r d s = Some s' \<and> lines_clearing s' = [] \<and>
          grid s' = replicate 20 (replicate 10 None)"
    unfolding r1 using init_game_ok[of "draw_shape d" "draw_next d" "draw_interval d"] by blast
  have t: "handle_key K_p d s = Some (s\<lparr>paused := \<not> paused s\<rparr>)"
    "handle_key K_b d s = Some (s\<lparr>random_blocks_enabled := \<not> random_blocks_enabled s\<rparr>)"
    "handle_key K_other d s = Some s"
    by (simp_all add: handle_key_def)
  have idle: "game_over s \<or> paused s \<longrightarrow>
       handle_key K_LEFT d s = Some s \<and> handle_key K_RIGHT d s = Some s \<and>
       handle_key K_DOWN d s = Some s \<and> handle_key K_UP d s = Some s \<and>
       handle_key K_SPACE d s = Some s"
    by (auto simp: handle_key_def)
  have keys: "(\<exists>s'. handle_key K_LEFT d s = Some s' \<and> next_piece s' = Some q \<and>
             current_piece s' =
               Some (if is_valid_position (grid s) (p\<lparr>pos_x := pos_x p - 1\<rparr>) = Some True
                     then p\<lparr>pos_x := pos_x p - 1\<rparr> else p)) \<and>
       (\<exists>s'. handle_key K_RIGHT d s = Some s' \<and> next_piece s' = Some q \<and>
             current_piece s' =
               Some (if is_valid_position (grid s) (p\<lparr>pos_x := pos_x p + 1\<rparr>) = Some True
                     then p\<lparr>pos_x := pos_x p + 1\<rparr> else p)) \<and>
       (\<exists>s' p'. handle_key K_UP d s = Some s' \<and> rotate_tetromino p = Some p' \<and>
             next_piece s' = Some q \<and>
             current_piece s' =
               Some (if is_valid_position (grid s) p' = Some True then p' else p)) \<and>
       (\<exists>s'. handle_key K_DOWN d s = Some s' \<and>
          (is_valid_position (grid s) (p\<lparr>pos_y := pos_y p + 1\<rparr>) = Some True \<longrightarrow>
             current_piece s' = Some (p\<lparr>pos_y := pos_y p + 1\<rparr>) \<and> next_piece s' = Some q) \<and>
          (is_valid_position (grid s) (p\<lparr>pos_y := pos_y p + 1\<rparr>) = Some False \<longrightarrow>
             place_piece (draw_shape d) s = Some s' \<and> current_piece s' = Some q \<and>
             next_piece s' = Some (Tetromino 4 0 (randint_shape (draw_shape d))))) \<and>
       (\<exists>n s'. handle_key K_SPACE d s = Some s' \<and>
          place_piece (draw_shape d) (s\<lparr>current_piece := Some (p\<lparr>pos_y := pos_y p + int n\<rparr>)\<rparr>)
            = Some s' \<and>
          current_piece s' = Some q \<and>
          next_piece s' = Some (Tetromino 4 0 (randint_shape (draw_shape d))))"
    if ng: "\<not> game_over s \<and> \<not> paused s"
  proof -
    have hl: "handle_key K_LEFT d s = map_option snd (move_piece (- 1) 0 (draw_shape d) s)"
      and hr: "handle_key K_RIGHT d s = map_option snd (move_piece 1 0 (draw_shape d) s)"
      and hd: "handle_key K_DOWN d s = map_option snd (move_piece 0 1 (draw_shape d) s)"
      and hu: "handle_key K_UP d s = rotate_piece s"
      and hs: "handle_key K_SPACE d s = hard_drop (draw_shape d) s"
      using ng by (simp_all add: handle_key_def)
    have m: "pos_x p + - 1 = pos_x p - 1" by simp
    have k1: "\<exists>s'. handle_key K_LEFT d s = Some s' \<and> next_piece s' = Some q \<and>
             current_piece s' =
               Some (if is_valid_position (grid s) (p\<lparr>pos_x := pos_x p - 1\<rparr>) = Some True
                     then p\<lparr>pos_x := pos_x p - 1\<rparr> else p)"
      unfolding hl using side_move_cases[OF ok assms(3,4), of "- 1" "draw_shape d"]
      unfolding m .
    have k2: "\<exists>s'. handle_key K_RIGHT d s = Some s' \<and> next_piece s' = Some q \<and>
             current_piece s' =
               Some (if is_valid_position (grid s) (p\<lparr>pos_x := pos_x p + 1\<rparr>) = Some True
                     then p\<lparr>pos_x := pos_x p + 1\<rparr> else p)"
      unfolding hr by (rule side_move_cases[OF ok assms(3,4)])
    have k3: "\<exists>s' p'. handle_key K_UP d s = Some s' \<and> rotate_tetromino p = Some p' \<and>
             next_piece s' = Some q \<and>
             current_piece s' =
               Some (if is_valid_position (grid s) p' = Some True then p' else p)"
      unfolding hu by (rule rotate_cases[OF ok assms(3,4)])
    have k4: "\<exists>s'. handle_key K_DOWN d s = Some s' \<and>
          (is_valid_position (grid s) (p\<lparr>pos_y := pos_y p + 1\<rparr>) = Some True \<longrightarrow>
             current_piece s' = Some (p\<lparr>pos_y := pos_y p + 1\<rparr>) \<and> next_piece s' = Some q) \<and>
          (is_valid_position (grid s) (p\<lparr>pos_y := pos_y p + 1\<rparr>) = Some False \<longrightarrow>
             place_piece (draw_shape d) s = Some s' \<and> current_piece s' = Some q \<and>
             next_piece s' = Some (Tetromino 4 0 (randint_shape (draw_shape d))))"
      unfolding hd by (rule down_move_cases[OF ok assms(3,4)])
    have k5: "\<exists>n s'. handle_key K_SPACE d s = Some s' \<and>
          place_piece (draw_shape d) (s\<lparr>current_piece := Some (p\<lparr>pos_y := pos_y p + int n\<rparr>)\<rparr>)
            = Some s' \<and>
          current_piece s' = Some q \<and>
          next_piece s' = Some (Tetromino 4 0 (randint_shape (draw_shape d)))"
      unfolding hs by (rule hard_drop_spawns[OF ok assms(3,4)])
    from k1 k2 k3 k4 k5 show ?thesis by (intro conjI)
  qed
  show ?thesis
    apply (intro conjI)
    subgoal by (rule a)
    subgoal by (rule b)
    subgoal by (rule c0)
    subgoal using c by blast
    subgoal by (rule r1)
    subgoal by (rule r2)
    subgoal by (rule t(1))
    subgoal by (rule t(2))
    subgoal by (rule t(3))
    subgoal by (rule idle)
    subgoal using keys by blast
    done
qed

text \<open>
  The amended claim C1 at a reachable state with the rows 18 and 19 pending and the
  square resting on them.
\<close>

theorem spawn_only_by_placement_witness:
  "reachable resting \<and> lines_clearing resting \<noteq> [] \<and>
   current_piece resting = Some (Tetromino 4 16 1) \<and>
   next_piece resting = Some (Tetromino 4 0 2) \<and>
   \<not> game_over resting \<and> \<not> paused resting \<and>
   (\<exists>s'. place_piece 3 resting = Some s' \<and>
         current_piece s' = Some (Tetromino 4 0 2) \<and>
         next_piece s' = Some (Tetromino 4 0 (randint_shape 3)) \<and>
         keeps (grid resting) (grid s') \<and>
         set (lines_clearing resting) \<subseteq> set (lines_clearing s')) \<and>
   (\<exists>s'. finish_line_clear resting = Some s' \<and> lines_clearing s' = [] \<and>
         current_piece s' = Some (Tetromino 4 16 1) \<and> next_piece s' = Some (Tetromino 4 0 2)) \<and>
   (\<exists>s'. update (+) 100 (draw 3) resting = Some s' \<and>
         current_piece s' = Some (Tetromino 4 16 1) \<and> next_piece s' = Some (Tetromino 4 0 2)) \<and>
   (\<exists>s'. handle_key K_r (draw 3) resting = Some s' \<and> lines_clearing s' = [] \<and>
         grid s' = replicate 20 (replicate 10 None)) \<and>
   (\<exists>s'. handle_key K_DOWN (draw 3) resting = Some s' \<and>
         place_piece 3 resting = Some s' \<and>
         current_piece s' = Some (Tetromino 4 0 2) \<and>
         next_piece s' = Some (Tetromino 4 0 (randint_shape 3))) \<and>
   (\<exists>n s'. handle_key K_SPACE (draw 3) resting = Some s' \<and>
         place_piece 3
           (resting\<lparr>current_piece := Some ((Tetromino 4 16 1)\<lparr>pos_y := 16 + int n\<rparr>)\<rparr>) = Some s' \<and>
         current_piece s' = Some (Tetromino 4 0 2) \<and>
         next_piece s' = Some (Tetromino 4 0 (randint_shape 3)))"
proof -
  have f: "lines_clearing resting \<noteq> []" "current_piece resting = Some (Tetromino 4 16 1)"
    "next_piece resting = Some (Tetromino 4 0 2)" "\<not> game_over resting" "\<not> paused resting"
    "fall_time resting + 100 < real_of_int (fall_speed resting)"
    by (simp_all add: resting_def two_rows_pending_def fresh_def)
  have g: "is_valid_position (grid resting) ((Tetromino 4 16 1)\<lparr>pos_y := 17\<rparr>) = Some False"
    by code_simp
  have h: "draw_shape (draw 3) = 3" "pos_y (Tetromino 4 16 1) = 16"
    by (simp_all add: draw_def Tetromino_def)
  note th = spawn_only_by_placement[OF reachable_resting f(1,2,3),
      where k = 3 and fadd = "(+)" and dt = 100 and d = "draw 3"]
  from th have 1: "\<exists>s'. place_piece 3 resting = Some s' \<and>
         current_piece s' = Some (Tetromino 4 0 2) \<and>
         next_piece s' = Some (Tetromino 4 0 (randint_shape 3)) \<and>
         keeps (grid resting) (grid s') \<and>
         set (lines_clearing resting) \<subseteq> set (lines_clearing s')"
    by (elim conjE)
  from th have 2: "\<exists>s'. finish_line_clear resting = Some s' \<and> lines_clearing s' = [] \<and>
         current_piece s' = Some (Tetromino 4 16 1) \<and> next_piece s' = Some (Tetromino 4 0 2)"
    by (elim conjE)
  from th f have 3: "\<exists>s'. update (+) 100 (draw 3) resting = Some s' \<and>
         current_piece s' = Some (Tetromino 4 16 1) \<and> next_piece s' = Some (Tetromino 4 0 2)"
    by (elim conjE) auto
  from th have 4: "\<exists>s'. handle_key K_r (draw 3) resting = Some s' \<and> lines_clearing s' = [] \<and>
         grid s' = replicate 20 (replicate 10 None)"
    by (elim conjE)
  from th f g h have 5: "\<exists>s'. handle_key K_DOWN (draw 3) resting = Some s' \<and>
         place_piece 3 resting = Some s' \<and>
         current_piece s' = Some (Tetromino 4 0 2) \<and>
         next_piece s' = Some (Tetromino 4 0 (randint_shape 3))"
    by (elim conjE) auto
  from th f h have 6: "\<exists>n s'. handle_key K_SPACE (draw 3) resting = Some s' \<and>
         place_piece 3
           (resting\<lparr>current_piece := Some ((Tetromino 4 16 1)\<lparr>pos_y := 16 + int n\<rparr>)\<rparr>) = Some s' \<and>
         current_piece s' = Some (Tetromino 4 0 2) \<and>
         next_piece s' = Some (Tetromino 4 0 (randint_shape 3))"
    by (elim conjE) simp
  from reachable_resting f(1-5) 1 2 3 4 5 6 show ?thesis by (intro conjI)
qed

text \<open>
  Claim C1 as stated fails. After five squares have filled the rows 18 and 19 these rows
  are pending; a hard drop of the sixth square then promotes the T to current piece and
  draws a new next piece, with the rows 18 and 19 still pending. So does a call of
  \<open>update\<close> whose gravity step finds the sixth square resting on the pending rows.
\<close>

theorem placement_spawns_while_clearing:
  "reachable two_rows_pending \<and>
   lines_clearing two_rows_pending = [18, 19] \<and>
   current_piece two_rows_pending = Some (Tetromino 4 0 1) \<and>
   next_piece two_rows_pending = Some (Tetromino 4 0 2) \<and>
   handle_key K_SPACE (draw 3) two_rows_pending = Some stacked \<and>
   lines_clearing stacked = [18, 19] \<and>
   current_piece stacked = Some (Tetromino 4 0 2) \<and>
   next_piece stacked = Some (Tetromino 4 0 3) \<and>
   reachable resting \<and>
   lines_clearing resting = [18, 19] \<and>
   current_piece resting = Some (Tetromino 4 16 1) \<and>
   next_piece resting = Some (Tetromino 4 0 2) \<and>
   update (+) 500 (draw 3) resting = Some (stacked\<lparr>clear_animation_time := 500\<rparr>)"
proof -
  have 1: "lines_clearing two_rows_pending = [18, 19]"
    "current_piece two_rows_pending = Some (Tetromino 4 0 1)"
    "next_piece two_rows_pending = Some (Tetromino 4 0 2)"
    by (simp_all add: two_rows_pending_def fresh_def)
  have 2: "lines_clearing stacked = [18, 19]"
    "current_piece stacked = Some (Tetromino 4 0 2)"
    "next_piece stacked = Some (Tetromino 4 0 3)"
    by (simp_all add: stacked_def two_rows_pending_def)
  have 3: "lines_clearing resting = [18, 19]"
    "current_piece resting = Some (Tetromino 4 16 1)"
    "next_piece resting = Some (Tetromino 4 0 2)"
    by (simp_all add: resting_def two_rows_pending_def fresh_def)
  have 4: "update (+) 500 (draw 3) resting = Some (stacked\<lparr>clear_animation_time := 500\<rparr>)"
    by code_simp
  from reachable_two_rows_pending reachable_resting drop_on_pending 1 2 3 4
  show ?thesis by blast
qed

text \<open>
  Claim C2, at a reachable state where it fails. In \<open>stacked\<close> the rows 18 and 19 are
  full and pending and the rows 16 and 17 hold a square. Removing the pending rows, as
  \<open>removeRows\<close> words it, leaves the square in the rows 18 and 19. \<open>finish_line_clear\<close>
  deletes index 19, inserts an empty row, and then deletes index 18, which by then holds
  the former row 17: half of the square is lost and the former row 18 stays, full, as
  row 19. The score and the line count are raised for two rows all the same (the last
  conjunct is the call of \<open>update\<close> that reaches 800 ms).
\<close>

theorem compaction_deletes_wrong_row:
  "reachable stacked \<and>
   lines_clearing stacked = [18, 19] \<and>
   grid stacked =
     replicate 16 (replicate 10 None) @
     replicate 2 (replicate 4 None @ replicate 2 (Some YELLOW) @ replicate 4 None) @
     replicate 2 (replicate 10 (Some YELLOW)) \<and>
   removeRows (lines_clearing stacked) (grid stacked) =
     replicate 18 (replicate 10 None) @
     replicate 2 (replicate 4 None @ replicate 2 (Some YELLOW) @ replicate 4 None) \<and>
   map_option grid (finish_line_clear stacked) =
     Some (replicate 18 (replicate 10 None) @
           [replicate 4 None @ replicate 2 (Some YELLOW) @ replicate 4 None,
            replicate 10 (Some YELLOW)]) \<and>
   update (+) 800 (draw 1) stacked =
     Some (stacked\<lparr>grid := replicate 18 (replicate 10 None) @
                          [replicate 4 None @ replicate 2 (Some YELLOW) @ replicate 4 None,
                           replicate 10 (Some YELLOW)],
                  score := 200, lines_cleared := 2, fall_time := 800,
                  lines_clearing := []\<rparr>)"
proof -
  have 1: "lines_clearing stacked = [18, 19]" by (simp add: stacked_def two_rows_pending_def)
  have 2: "grid stacked =
     replicate 16 (replicate 10 None) @
     replicate 2 (replicate 4 None @ replicate 2 (Some YELLOW) @ replicate 4 None) @
     replicate 2 (replicate 10 (Some YELLOW))" by (simp add: stacked_def)
  have 3: "removeRows (lines_clearing stacked) (grid stacked) =
     replicate 18 (replicate 10 None) @
     replicate 2 (replicate 4 None @ replicate 2 (Some YELLOW) @ replicate 4 None)"
    by code_simp
  have 4: "map_option grid (finish_line_clear stacked) =
     Some (replicate 18 (replicate 10 None) @
           [replicate 4 None @ replicate 2 (Some YELLOW) @ replicate 4 None,
            replicate 10 (Some YELLOW)])"
    by code_simp
  have 5: "update (+) 800 (draw 1) stacked =
     Some (stacked\<lparr>grid := replicate 18 (replicate 10 None) @
                          [replicate 4 None @ replicate 2 (Some YELLOW) @ replicate 4 None,
                           replicate 10 (Some YELLOW)],
                  score := 200, lines_cleared := 2, fall_time := 800,
                  lines_clearing := []\<rparr>)"
    by code_simp
  from reachable_stacked 1 2 3 4 5 show ?thesis by blast
qed


text \<open>
  Claim C3. When \<open>spawn_new_piece\<close> promotes a next piece whose position is invalid, it
  returns with \<open>game_over\<close> set, the promoted piece as current piece, and the grid, the
  pending rows, the score and the line count as they were.
\<close>

theorem spawn_blocked_game_over:
  "next_piece s = Some q \<Longrightarrow> is_valid_position (grid s) q = Some False \<Longrightarrow>
   \<exists>s'. spawn_new_piece k s = Some s' \<and> game_over s' \<and> grid s' = grid s \<and>
        current_piece s' = Some q \<and> lines_clearing s' = lines_clearing s \<and>
        score s' = score s \<and> lines_cleared s' = lines_cleared s"
  by (simp add: spawn_new_piece_def Let_def)

text \<open>
  Claim C3 at a state whose cell (4, 0) is occupied, where the T cannot be placed at
  its initial position (4, 0).
\<close>

theorem spawn_blocked_game_over_witness:
  "next_piece top_blocked = Some (Tetromino 4 0 2) \<and>
   is_valid_position (grid top_blocked) (Tetromino 4 0 2) = Some False \<and>
   \<not> game_over top_blocked \<and>
   (\<exists>s'. spawn_new_piece 0 top_blocked = Some s' \<and> game_over s' \<and>
         grid s' = grid top_blocked \<and> current_piece s' = Some (Tetromino 4 0 2) \<and>
         lines_clearing s' = lines_clearing top_blocked \<and>
         score s' = score top_blocked \<and> lines_cleared s' = lines_cleared top_blocked)"
proof -
  have n: "next_piece top_blocked = Some (Tetromino 4 0 2)"
    by (simp add: top_blocked_def fresh_def)
  have v: "is_valid_position (grid top_blocked) (Tetromino 4 0 2) = Some False"
    by code_simp
  have g: "\<not> game_over top_blocked" by (simp add: top_blocked_def fresh_def)
  from spawn_blocked_game_over[OF n v, of 0] n v g show ?thesis by simp
qed


text \<open>
  Claim C4. In a well-formed state with a current and a next piece, \<open>move_piece\<close>
  tests the piece moved by \<open>(dx, dy)\<close>. Valid: it returns true with the piece at the new
  position and nothing else changed. Invalid and \<open>dy \<le> 0\<close>: it returns false with the
  state unchanged. Invalid and \<open>dy > 0\<close>: it returns false with the result of
  \<open>place_piece\<close> on the state with the piece at its old position: the grid holds the
  colour of the piece in the cells of the old position (\<open>written p\<close>, not the moved
  piece), \<open>lines_clearing\<close> is the list of full rows of that grid, the next piece has
  become current and a new next piece exists.
\<close>

theorem move_piece_cases:
  assumes "state_ok s" "current_piece s = Some p" "next_piece s = Some q"
  shows "let p1 = p\<lparr>pos_x := pos_x p + dx, pos_y := pos_y p + dy\<rparr> in
     (is_valid_position (grid s) p1 = Some True \<or> is_valid_position (grid s) p1 = Some False) \<and>
     (is_valid_position (grid s) p1 = Some True \<longrightarrow>
        move_piece dx dy k s = Some (True, s\<lparr>current_piece := Some p1\<rparr>)) \<and>
     (is_valid_position (grid s) p1 = Some False \<and> \<not> dy > 0 \<longrightarrow>
        move_piece dx dy k s = Some (False, s)) \<and>
     (is_valid_position (grid s) p1 = Some False \<and> dy > 0 \<longrightarrow>
        (\<exists>s'. move_piece dx dy k s = Some (False, s') \<and>
              place_piece k s = Some s' \<and>
              written p (grid s) (grid s') \<and>
              lines_clearing s' = detected (grid s') \<and>
              current_piece s' = Some q \<and>
              next_piece s' = Some (Tetromino 4 0 (randint_shape k))))"
proof -
  let ?p1 = "p\<lparr>pos_x := pos_x p + dx, pos_y := pos_y p + dy\<rparr>"
  have "rect (shape ?p1)" using state_ok_current[OF assms(1,2)] by (simp add: piece_ok_def)
  from is_valid_position_valid[OF state_okD(1)[OF assms(1)] this]
  have v: "is_valid_position (grid s) ?p1 = Some (valid (grid s) ?p1)" .
  from place_piece_ok[OF assms(1,2), of k] obtain g s' where
    pl: "written p (grid s) g" "place_piece k s = Some s'" "grid s' = g"
      "lines_clearing s' = detected g" "next_piece s' = Some (Tetromino 4 0 (randint_shape k))"
      "\<forall>q. next_piece s = Some q \<longrightarrow> current_piece s' = Some q"
    by auto
  have m: "move_piece dx dy k s =
           (if valid (grid s) ?p1 then Some (True, s\<lparr>current_piece := Some ?p1\<rparr>)
            else if dy > 0 then map_option (Pair False) (place_piece k s)
            else Some (False, s))"
    by (rule move_piece_ok[OF assms(1,2)])
  show ?thesis
    unfolding Let_def v m using pl assms(3) by auto
qed

text \<open>
  Claim C4 for the square on the floor of the empty field and a step down.
\<close>

theorem move_piece_cases_witness:
  "state_ok on_floor \<and> current_piece on_floor = Some (Tetromino 4 18 1) \<and>
   next_piece on_floor = Some (Tetromino 4 0 2) \<and>
   is_valid_position (grid on_floor) (Tetromino 4 19 1) = Some False \<and>
   (\<exists>s'. move_piece 0 1 3 on_floor = Some (False, s') \<and>
         place_piece 3 on_floor = Some s' \<and>
         written (Tetromino 4 18 1) (grid on_floor) (grid s') \<and>
         lines_clearing s' = detected (grid s') \<and>
         current_piece s' = Some (Tetromino 4 0 2) \<and>
         next_piece s' = Some (Tetromino 4 0 (randint_shape 3)))"
proof -
  have c: "current_piece on_floor = Some (Tetromino 4 18 1)"
    and n: "next_piece on_floor = Some (Tetromino 4 0 2)"
    by (simp_all add: on_floor_def fresh_def)
  have e: "(Tetromino 4 18 1)\<lparr>pos_x := pos_x (Tetromino 4 18 1) + 0,
              pos_y := pos_y (Tetromino 4 18 1) + 1\<rparr> = Tetromino 4 19 1"
    by (simp add: Tetromino_def)
  have v: "is_valid_position (grid on_floor) (Tetromino 4 19 1) = Some False"
    by code_simp
  from move_piece_cases[OF state_ok_on_floor c n, where dx = 0 and dy = 1 and k = 3]
    v c n state_ok_on_floor
  show ?thesis unfolding Let_def e by simp
qed


text \<open>
  Claim C5, as amended. In a well-formed state (a grid of 20 by 10, a current piece
  with a rectangular shape and at least one set cell) \<open>hard_drop\<close> returns, and it
  commits the piece at the first depth \<open>d\<close> whose next step down is invalid: the steps
  \<open>1, \<dots>, d\<close> are valid, the step \<open>d + 1\<close> is not, and the result is that of
  \<open>place_piece\<close> with the piece lowered by \<open>d\<close>. On an empty field no deeper valid
  position exists, so there \<open>d\<close> is the maximum valid depth.
\<close>

theorem hard_drop_lands:
  assumes "state_ok s" "current_piece s = Some p"
  shows "\<exists>d s'.
     (\<forall>i. 1 \<le> i \<and> i \<le> d \<longrightarrow>
         is_valid_position (grid s) (p\<lparr>pos_y := pos_y p + int i\<rparr>) = Some True) \<and>
     is_valid_position (grid s) (p\<lparr>pos_y := pos_y p + int d + 1\<rparr>) = Some False \<and>
     hard_drop k s = Some s' \<and>
     place_piece k (s\<lparr>current_piece := Some (p\<lparr>pos_y := pos_y p + int d\<rparr>)\<rparr>) = Some s' \<and>
     written (p\<lparr>pos_y := pos_y p + int d\<rparr>) (grid s) (grid s') \<and>
     lines_clearing s' = detected (grid s') \<and>
     ((\<forall>y<20. \<forall>x<10. grid s ! y ! x = None) \<longrightarrow>
        (\<forall>j. is_valid_position (grid s) (p\<lparr>pos_y := pos_y p + int j\<rparr>) = Some True \<longrightarrow> j \<le> d))"
proof -
  have po: "piece_ok p" by (rule state_ok_current[OF assms])
  have g: "grid_ok (grid s)" by (rule state_okD(1)[OF assms(1)])
  have v: "is_valid_position (grid s) (lowered p i) = Some (valid (grid s) (lowered p i))" for i
    by (rule is_valid_position_valid[OF g piece_ok_rect[OF piece_ok_lowered[OF po]]])
  from hard_drop_ok[OF assms, of k] obtain d s' where
    h: "\<forall>i. 1 \<le> i \<and> i \<le> d \<longrightarrow> valid (grid s) (lowered p i)"
       "\<not> valid (grid s) (lowered p (Suc d))"
       "hard_drop k s = Some s'"
       "place_piece k (s\<lparr>current_piece := Some (lowered p d)\<rparr>) = Some s'"
       "written (lowered p d) (grid s) (grid s')"
       "lines_clearing s' = detected (grid s')"
    by blast
  have e: "p\<lparr>pos_y := pos_y p + int d + 1\<rparr> = lowered p (Suc d)"
    by (simp add: lowered_def add.assoc)
  have mono: "(\<forall>y<20. \<forall>x<10. grid s ! y ! x = None) \<longrightarrow>
        (\<forall>j. valid (grid s) (lowered p j) \<longrightarrow> j \<le> d)"
  proof (intro impI allI)
    fix j assume em: "\<forall>y<20. \<forall>x<10. grid s ! y ! x = None" and vj: "valid (grid s) (lowered p j)"
    show "j \<le> d"
    proof (rule ccontr)
      assume "\<not> j \<le> d"
      then have "Suc d \<le> j" by simp
      from valid_empty_mono[OF em vj this] h(2) show False by simp
    qed
  qed
  show ?thesis
    apply (rule exI[of _ d], rule exI[of _ s'])
    unfolding e lowered_def[symmetric] v
    using h mono by simp
qed

text \<open>
  The amended claim C5 on the empty field: the square lands in the rows 18 and 19.
\<close>

theorem hard_drop_lands_witness:
  "state_ok fresh \<and> current_piece fresh = Some (Tetromino 4 0 1) \<and>
   hard_drop 3 fresh =
     Some (fresh\<lparr>grid := replicate 18 (replicate 10 None) @
                          replicate 2 (replicate 4 None @ replicate 2 (Some YELLOW) @ replicate 4 None),
                 current_piece := Some (Tetromino 4 0 2),
                 next_piece := Some (Tetromino 4 0 3)\<rparr>) \<and>
   (\<exists>d s'.
     (\<forall>i. 1 \<le> i \<and> i \<le> d \<longrightarrow>
         is_valid_position (grid fresh) ((Tetromino 4 0 1)\<lparr>pos_y := pos_y (Tetromino 4 0 1) + int i\<rparr>)
           = Some True) \<and>
     is_valid_position (grid fresh) ((Tetromino 4 0 1)\<lparr>pos_y := pos_y (Tetromino 4 0 1) + int d + 1\<rparr>)
       = Some False \<and>
     hard_drop 3 fresh = Some s' \<and>
     written ((Tetromino 4 0 1)\<lparr>pos_y := pos_y (Tetromino 4 0 1) + int d\<rparr>) (grid fresh) (grid s'))"
proof -
  have c: "current_piece fresh = Some (Tetromino 4 0 1)" by (simp add: fresh_def)
  have h: "hard_drop 3 fresh =
     Some (fresh\<lparr>grid := replicate 18 (replicate 10 None) @
                          replicate 2 (replicate 4 None @ replicate 2 (Some YELLOW) @ replicate 4 None),
                 current_piece := Some (Tetromino 4 0 2),
                 next_piece := Some (Tetromino 4 0 3)\<rparr>)"
    by code_simp
  from hard_drop_lands[OF state_ok_fresh c, of 3] obtain d s' where
    "(\<forall>i. 1 \<le> i \<and> i \<le> d \<longrightarrow>
         is_valid_position (grid fresh) ((Tetromino 4 0 1)\<lparr>pos_y := pos_y (Tetromino 4 0 1) + int i\<rparr>)
           = Some True) \<and>
     is_valid_position (grid fresh) ((Tetromino 4 0 1)\<lparr>pos_y := pos_y (Tetromino 4 0 1) + int d + 1\<rparr>)
       = Some False \<and>
     hard_drop 3 fresh = Some s' \<and>
     written ((Tetromino 4 0 1)\<lparr>pos_y := pos_y (Tetromino 4 0 1) + int d\<rparr>) (grid fresh) (grid s')"
    by blast
  then show ?thesis using state_ok_fresh c h by blast
qed

text \<open>
  Claim C5 as stated fails on a reachable grid with a cavity. The square at column 1
  is valid at depth 18 and invalid at depth 19, so 18 is the largest depth that is valid
  with an invalid successor; \<open>hard_drop\<close> commits it at depth 13, on top of the
  horizontal I, where the step to depth 14 is the first invalid one.
\<close>

theorem hard_drop_stops_above_cavity:
  "reachable overhang \<and>
   current_piece overhang = Some (Tetromino 1 0 1) \<and>
   is_valid_position (grid overhang) (Tetromino 1 18 1) = Some True \<and>
   is_valid_position (grid overhang) (Tetromino 1 19 1) = Some False \<and>
   is_valid_position (grid overhang) (Tetromino 1 13 1) = Some True \<and>
   is_valid_position (grid overhang) (Tetromino 1 14 1) = Some False \<and>
   map_option grid (hard_drop 1 overhang) =
     Some (replicate 13 (replicate 10 None) @
           replicate 2 (None # replicate 2 (Some YELLOW) @ replicate 7 None) @
           [replicate 4 (Some CYAN) @ replicate 6 None] @
           replicate 4 (Some CYAN # replicate 9 None))"
proof -
  have 1: "current_piece overhang = Some (Tetromino 1 0 1)" by (simp add: overhang_def)
  have 2: "is_valid_position (grid overhang) (Tetromino 1 18 1) = Some True" by code_simp
  have 3: "is_valid_position (grid overhang) (Tetromino 1 19 1) = Some False" by code_simp
  have 4: "is_valid_position (grid overhang) (Tetromino 1 13 1) = Some True" by code_simp
  have 5: "is_valid_position (grid overhang) (Tetromino 1 14 1) = Some False" by code_simp
  have 6: "map_option grid (hard_drop 1 overhang) =
     Some (replicate 13 (replicate 10 None) @
           replicate 2 (None # replicate 2 (Some YELLOW) @ replicate 7 None) @
           [replicate 4 (Some CYAN) @ replicate 6 None] @
           replicate 4 (Some CYAN # replicate 9 None))" by code_simp
  from reachable_overhang 1 2 3 4 5 6 show ?thesis by blast
qed


text \<open>
  Claim C6. On a grid of 20 rows of 10 cells, \<open>is_valid_position\<close> returns false if and
  only if some occupied cell \<open>(x, y)\<close> of the piece has \<open>x < 0\<close>, \<open>x \<ge> 10\<close>,
  \<open>y \<ge> 20\<close>, or \<open>y \<ge> 0\<close> and a non-empty grid cell at \<open>grid[y][x]\<close>. A cell with
  \<open>y < 0\<close> is not compared with the grid, so a piece partly above the field can be
  valid.
\<close>

theorem is_valid_position_iff:
  "grid_ok g \<Longrightarrow> rect (shape p) \<Longrightarrow>
   is_valid_position g p =
     Some (\<not> (\<exists>r<length (shape p). \<exists>c<length (hd (shape p)).
                 shape p ! r ! c \<noteq> 0 \<and>
                 (pos_x p + int c < 0 \<or> pos_x p + int c \<ge> 10 \<or> pos_y p + int r \<ge> 20 \<or>
                  (pos_y p + int r \<ge> 0 \<and>
                   g ! nat (pos_y p + int r) ! nat (pos_x p + int c) \<noteq> None))))"
proof -
  assume g: "grid_ok g" and r: "rect (shape p)"
  have "(\<forall>q\<in>set (cells p). \<not> blocked g q) \<longleftrightarrow>
     \<not> (\<exists>r<length (shape p). \<exists>c<length (hd (shape p)).
                 shape p ! r ! c \<noteq> 0 \<and>
                 (pos_x p + int c < 0 \<or> pos_x p + int c \<ge> 10 \<or> pos_y p + int r \<ge> 20 \<or>
                  (pos_y p + int r \<ge> 0 \<and>
                   g ! nat (pos_y p + int r) ! nat (pos_x p + int c) \<noteq> None)))"
    unfolding Ball_def in_cells_iff blocked_def by fastforce
  then show ?thesis using is_valid_position_ok[OF g r] by simp
qed

text \<open>
  Claim C6 on the empty grid: the T with its upper row above the field is valid, the T
  reaching column 10 is not.
\<close>

theorem is_valid_position_iff_witness:
  "grid_ok (replicate 20 (replicate 10 None)) \<and>
   rect (shape (Tetromino 4 (- 1) 2)) \<and>
   is_valid_position (replicate 20 (replicate 10 None)) (Tetromino 4 (- 1) 2) = Some True \<and>
   is_valid_position (replicate 20 (replicate 10 None)) (Tetromino 8 0 2) = Some False \<and>
   (\<exists>r<length (shape (Tetromino 8 0 2)). \<exists>c<length (hd (shape (Tetromino 8 0 2))).
       shape (Tetromino 8 0 2) ! r ! c \<noteq> 0 \<and>
       (pos_x (Tetromino 8 0 2) + int c < 0 \<or> pos_x (Tetromino 8 0 2) + int c \<ge> 10 \<or>
        pos_y (Tetromino 8 0 2) + int r \<ge> 20 \<or>
        (pos_y (Tetromino 8 0 2) + int r \<ge> 0 \<and>
         replicate 20 (replicate 10 None) ! nat (pos_y (Tetromino 8 0 2) + int r)
           ! nat (pos_x (Tetromino 8 0 2) + int c) \<noteq> (None :: cell))))"
proof -
  let ?g = "replicate 20 (replicate 10 (None :: cell))"
  have s: "shape (Tetromino 4 (- 1) 2) = [[1, 1, 1], [0, 1, 0]]"
          "shape (Tetromino 8 0 2) = [[1, 1, 1], [0, 1, 0]]"
    by (simp_all add: Tetromino_def TETROMINOS_def)
  have r: "rect (shape (Tetromino 4 (- 1) 2))" "rect (shape (Tetromino 8 0 2))"
    unfolding s by (rule rect_T)+
  have v1: "is_valid_position ?g (Tetromino 4 (- 1) 2) = Some True"
    by code_simp
  have v2: "is_valid_position ?g (Tetromino 8 0 2) = Some False"
    by code_simp
  from is_valid_position_iff[OF grid_ok_empty r(2)] v2 r v1 grid_ok_empty
  show ?thesis by simp
qed


text \<open>
  Claim C7. For a piece whose shape is a rectangular matrix with at least one row and one
  column, four calls of \<open>rotate\<close> return normally and give back the piece, cell for
  cell; one call gives a shape \<open>q\<close> with \<open>q[c][rows - 1 - r] = old[r][c]\<close> (a quarter
  turn clockwise, \<open>cols\<close> rows of \<open>rows\<close> cells) and the same number of set cells.
\<close>

theorem rotate_four_times:
  "rect (shape p) \<Longrightarrow>
     Option.bind (Option.bind (Option.bind (rotate_tetromino p) rotate_tetromino) rotate_tetromino) rotate_tetromino = Some p \<and>
     (\<exists>q. rotate_tetromino p = Some q \<and>
          cell_count (shape q) = cell_count (shape p) \<and>
          length (shape q) = length (hd (shape p)) \<and>
          (\<forall>r<length (shape p). \<forall>c<length (hd (shape p)).
              length (shape q ! c) = length (shape p) \<and>
              shape q ! c ! (length (shape p) - 1 - r) = shape p ! r ! c))"
proof -
  assume r0: "rect (shape p)"
  let ?s = "shape p"
  have r1: "rect (rot90 ?s)" by (rule rect_rot90[OF r0])
  have r2: "rect (rot90 (rot90 ?s))" by (rule rect_rot90[OF r1])
  have r3: "rect (rot90 (rot90 (rot90 ?s)))" by (rule rect_rot90[OF r2])
  have e1: "rotate_tetromino p = Some (p\<lparr>shape := rot90 ?s\<rparr>)"
    by (simp add: rotate_tetromino_def rotate_shape_rect[OF r0])
  have e2: "rotate_tetromino (p\<lparr>shape := rot90 ?s\<rparr>) = Some (p\<lparr>shape := rot90 (rot90 ?s)\<rparr>)"
    by (simp add: rotate_tetromino_def rotate_shape_rect[OF r1])
  have e3: "rotate_tetromino (p\<lparr>shape := rot90 (rot90 ?s)\<rparr>) = Some (p\<lparr>shape := rot90 (rot90 (rot90 ?s))\<rparr>)"
    by (simp add: rotate_tetromino_def rotate_shape_rect[OF r2])
  have e4: "rotate_tetromino (p\<lparr>shape := rot90 (rot90 (rot90 ?s))\<rparr>) = Some p"
    by (simp add: rotate_tetromino_def rotate_shape_rect[OF r3] rot90_four[OF r0])
  have four: "Option.bind (Option.bind (Option.bind (rotate_tetromino p) rotate_tetromino) rotate_tetromino) rotate_tetromino = Some p"
    by (simp add: e1 e2 e3 e4)
  have cell: "\<forall>r<length ?s. \<forall>c<length (hd ?s).
      length (rot90 ?s ! c) = length ?s \<and> rot90 ?s ! c ! (length ?s - 1 - r) = ?s ! r ! c"
  proof (intro allI impI)
    fix r c assume rc: "r < length ?s" "c < length (hd ?s)"
    then have "length ?s - 1 - r < length ?s" "length ?s - 1 - (length ?s - 1 - r) = r" by arith+
    with rot90_dims(2)[OF r0, of c] rot90_dims(3)[OF r0, of c "length ?s - 1 - r"] rc
    show "length (rot90 ?s ! c) = length ?s \<and> rot90 ?s ! c ! (length ?s - 1 - r) = ?s ! r ! c"
      by simp
  qed
  show ?thesis
    using four e1 cell cell_count_rot90[OF r0] rot90_dims(1)[OF r0] by simp
qed

text \<open>
  Claim C7 for the T.
\<close>

theorem rotate_four_times_witness:
  "rect (shape (Tetromino 4 0 2)) \<and>
   Option.bind (Option.bind (Option.bind (rotate_tetromino (Tetromino 4 0 2)) rotate_tetromino) rotate_tetromino) rotate_tetromino
     = Some (Tetromino 4 0 2) \<and>
   rotate_tetromino (Tetromino 4 0 2) = Some ((Tetromino 4 0 2)\<lparr>shape := [[0, 1], [1, 1], [0, 1]]\<rparr>) \<and>
   cell_count [[0, 1], [1, 1], [0, 1]] = cell_count (shape (Tetromino 4 0 2))"
proof -
  have s: "shape (Tetromino 4 0 2) = [[1, 1, 1], [0, 1, 0]]"
    by (simp add: Tetromino_def TETROMINOS_def)
  have r: "rect (shape (Tetromino 4 0 2))" unfolding s by (rule rect_T)
  have e: "rotate_tetromino (Tetromino 4 0 2) = Some ((Tetromino 4 0 2)\<lparr>shape := [[0, 1], [1, 1], [0, 1]]\<rparr>)"
    by (simp add: rotate_tetromino_def rotate_shape_def s upt_conv_Cons)
  from rotate_four_times[OF r] r e show ?thesis by auto
qed


text \<open>
  Claim C8. Every reachable state is well-formed, and from a well-formed state the
  grid is 20 rows of 10 cells before and after a piece commit, a random-block
  injection, a row compaction and a call of \<open>update\<close> (whatever the float addition
  computes), none of which raises \<open>IndexError\<close>. The commit changes exactly the
  cells of the field that the piece occupies (\<open>written\<close>); a cell of the piece outside
  the field is skipped.
\<close>

theorem grid_shape_invariant:
  "(reachable s \<longrightarrow> state_ok s) \<and>
   (state_ok s \<longrightarrow>
      grid_ok (grid s) \<and>
      (\<forall>p k. current_piece s = Some p \<longrightarrow>
          (\<exists>s'. place_piece k s = Some s' \<and> state_ok s' \<and> grid_ok (grid s') \<and>
                written p (grid s) (grid s'))) \<and>
      (\<forall>k1 k2. \<exists>s'. spawn_random_block k1 k2 s = Some s' \<and> state_ok s' \<and> grid_ok (grid s')) \<and>
      (\<exists>s'. finish_line_clear s = Some s' \<and> state_ok s' \<and> grid_ok (grid s')) \<and>
      (\<forall>fadd dt d. \<exists>s'. update fadd dt d s = Some s' \<and> state_ok s' \<and> grid_ok (grid s')))"
proof (intro conjI impI allI)
  assume "reachable s"
  then show "state_ok s" using reachable_ok by blast
next
  assume ok: "state_ok s"
  show "grid_ok (grid s)" by (rule state_okD(1)[OF ok])
next
  fix p k assume ok: "state_ok s" and c: "current_piece s = Some p"
  from place_piece_ok[OF ok c, of k] obtain g s' where
    "written p (grid s) g" "place_piece k s = Some s'" "state_ok s'" "grid s' = g" by auto
  then show "\<exists>s'. place_piece k s = Some s' \<and> state_ok s' \<and> grid_ok (grid s') \<and>
                written p (grid s) (grid s')"
    using state_okD(1) by auto
next
  fix k1 k2 assume ok: "state_ok s"
  from spawn_random_block_ok[OF ok, of k1 k2]
  show "\<exists>s'. spawn_random_block k1 k2 s = Some s' \<and> state_ok s' \<and> grid_ok (grid s')"
    using state_okD(1) by blast
next
  assume ok: "state_ok s"
  from finish_line_clear_state_ok[OF ok]
  show "\<exists>s'. finish_line_clear s = Some s' \<and> state_ok s' \<and> grid_ok (grid s')"
    using state_okD(1) by blast
next
  fix fadd dt d assume ok: "state_ok s"
  from update_ok[OF ok, of fadd dt d]
  show "\<exists>s'. update fadd dt d s = Some s' \<and> state_ok s' \<and> grid_ok (grid s')"
    using state_okD(1) by blast
qed

text \<open>
  Claim C8 for the T placed with its upper row above the field: only its cell (5, 0)
  is written.
\<close>

theorem grid_shape_invariant_witness:
  "reachable fresh \<and> state_ok fresh \<and> state_ok above_top \<and>
   current_piece above_top = Some (Tetromino 4 (- 1) 2) \<and>
   get_positions (Tetromino 4 (- 1) 2) = Some [(4, - 1), (5, - 1), (6, - 1), (5, 0)] \<and>
   map_option grid (place_piece 0 above_top) =
     Some ((replicate 10 None)[5 := Some MAGENTA] # replicate 19 (replicate 10 None)) \<and>
   (\<exists>s'. place_piece 0 above_top = Some s' \<and> state_ok s' \<and> grid_ok (grid s') \<and>
         written (Tetromino 4 (- 1) 2) (grid above_top) (grid s')) \<and>
   (\<exists>s'. update (+) 1000 (draw 0) fresh = Some s' \<and> state_ok s' \<and> grid_ok (grid s'))"
proof -
  have c: "current_piece above_top = Some (Tetromino 4 (- 1) 2)"
    by (simp add: above_top_def)
  have ps: "get_positions (Tetromino 4 (- 1) 2) = Some [(4, - 1), (5, - 1), (6, - 1), (5, 0)]"
    by code_simp
  have pl: "map_option grid (place_piece 0 above_top) =
     Some ((replicate 10 None)[5 := Some MAGENTA] # replicate 19 (replicate 10 None))"
    by code_simp
  from grid_shape_invariant[of fresh] reachable_fresh have f: "state_ok fresh" by blast
  from grid_shape_invariant[of above_top] state_ok_above_top c
  have 1: "\<exists>s'. place_piece 0 above_top = Some s' \<and> state_ok s' \<and> grid_ok (grid s') \<and>
         written (Tetromino 4 (- 1) 2) (grid above_top) (grid s')" by blast
  from grid_shape_invariant[of fresh] f
  have 2: "\<exists>s'. update (+) 1000 (draw 0) fresh = Some s' \<and> state_ok s' \<and> grid_ok (grid s')" by blast
  from reachable_fresh f state_ok_above_top c ps pl 1 2 show ?thesis by blast
qed


text \<open>
  Claim C9. When the rotated piece is at an invalid position, \<open>rotate_piece\<close> returns
  the state it was given: shape, origin and grid are unchanged, and nothing is raised.
\<close>

theorem rotate_piece_blocked:
  "current_piece s = Some p \<Longrightarrow> rotate_tetromino p = Some p' \<Longrightarrow>
   is_valid_position (grid s) p' = Some False \<Longrightarrow> rotate_piece s = Some s"
proof -
  assume c: "current_piece s = Some p" and r: "rotate_tetromino p = Some p'"
    and v: "is_valid_position (grid s) p' = Some False"
  from r obtain sh where "p' = p\<lparr>shape := sh\<rparr>" by (auto simp: rotate_tetromino_def)
  then have "p'\<lparr>shape := shape p\<rparr> = p" by simp
  then show ?thesis
    using c r v by (simp add: rotate_piece_def Let_def same_current)
qed

text \<open>
  Claim C9 for the vertical I in column 9, which cannot turn.
\<close>

theorem rotate_piece_blocked_witness:
  "current_piece at_right_wall =
     Some \<lparr>pos_x = 9, pos_y = 0, shape = [[1], [1], [1], [1]], color = CYAN, rotation = 0\<rparr> \<and>
   rotate_tetromino \<lparr>pos_x = 9, pos_y = 0, shape = [[1], [1], [1], [1]], color = CYAN, rotation = 0\<rparr> =
     Some \<lparr>pos_x = 9, pos_y = 0, shape = [[1, 1, 1, 1]], color = CYAN, rotation = 0\<rparr> \<and>
   is_valid_position (grid at_right_wall)
     \<lparr>pos_x = 9, pos_y = 0, shape = [[1, 1, 1, 1]], color = CYAN, rotation = 0\<rparr> = Some False \<and>
   rotate_piece at_right_wall = Some at_right_wall"
proof -
  let ?p = "\<lparr>pos_x = 9, pos_y = 0, shape = [[1], [1], [1], [1]], color = CYAN, rotation = 0\<rparr>"
  let ?p' = "\<lparr>pos_x = 9, pos_y = 0, shape = [[1, 1, 1, 1]], color = CYAN, rotation = 0\<rparr>"
  have c: "current_piece at_right_wall = Some ?p" by (simp add: at_right_wall_def)
  have r: "rotate_tetromino ?p = Some ?p'" by code_simp
  have v: "is_valid_position (grid at_right_wall) ?p' = Some False" by code_simp
  from rotate_piece_blocked[OF c r v] c r v show ?thesis by simp
qed


text \<open>
  Claim C10, as amended. In every reachable state each row index in \<open>lines_clearing\<close>
  is below 20 and its row has 10 non-empty cells. Cells are emptied by the compaction
  and by the restart key, and by nothing else. A placement, and every key other than the
  restart key, empties no cell and keeps every pending row in \<open>lines_clearing\<close> (the
  scan of \<open>clear_lines\<close> finds it again). The restart key builds a new game: the grid
  is empty and no row is pending, and no compaction has run. A call of \<open>update\<close>, with
  \<open>fadd\<close> the float addition, empties no cell and keeps every pending row unless its
  animation part compacts (\<open>compacts\<close> holds after the fall part, decided by the sum
  \<open>fadd\<close> computes), and then \<open>lines_clearing\<close> is empty afterwards.
\<close>

theorem pending_rows_stay_full:
  assumes "reachable s"
  shows "(\<forall>y\<in>set (lines_clearing s).
            y < 20 \<and> length (grid s ! y) = 10 \<and> (\<forall>x<10. grid s ! y ! x \<noteq> None)) \<and>
         (\<forall>p k. current_piece s = Some p \<longrightarrow>
            (\<exists>s'. place_piece k s = Some s' \<and> keeps (grid s) (grid s') \<and>
                  set (lines_clearing s) \<subseteq> set (lines_clearing s'))) \<and>
         (\<forall>ky d. \<exists>s'. handle_key ky d s = Some s' \<and>
            (ky \<noteq> K_r \<longrightarrow>
               keeps (grid s) (grid s') \<and> set (lines_clearing s) \<subseteq> set (lines_clearing s')) \<and>
            (ky = K_r \<longrightarrow>
               lines_clearing s' = [] \<and> grid s' = replicate 20 (replicate 10 None))) \<and>
         (\<forall>fadd dt d. \<exists>s1 s'. update_fall fadd dt d s = Some s1 \<and> update fadd dt d s = Some s' \<and>
            (game_over s \<or> paused s \<or> \<not> compacts fadd dt s1 \<longrightarrow>
               keeps (grid s) (grid s') \<and> set (lines_clearing s) \<subseteq> set (lines_clearing s')) \<and>
            (\<not> game_over s \<and> \<not> paused s \<and> compacts fadd dt s1 \<longrightarrow> lines_clearing s' = []))"
proof -
  from reachable_ok[OF assms] have ok: "state_ok s" and pr: "present s" by auto
  have g: "grid_ok (grid s)" by (rule state_okD(1)[OF ok])
  have 1: "\<forall>y\<in>set (lines_clearing s).
            y < 20 \<and> length (grid s ! y) = 10 \<and> (\<forall>x<10. grid s ! y ! x \<noteq> None)"
  proof
    fix y assume "y \<in> set (lines_clearing s)"
    then have y: "y < 20" "list_all (\<lambda>c. c \<noteq> None) (grid s ! y)"
      using state_okD(3)[OF ok] by (auto simp: pending_ok_def)
    have l: "length (grid s ! y) = 10" by (rule grid_ok_nth[OF g y(1)])
    from y l show "y < 20 \<and> length (grid s ! y) = 10 \<and> (\<forall>x<10. grid s ! y ! x \<noteq> None)"
      by (simp add: list_all_row[OF l])
  qed
  have 2: "\<forall>p k. current_piece s = Some p \<longrightarrow>
            (\<exists>s'. place_piece k s = Some s' \<and> keeps (grid s) (grid s') \<and>
                  set (lines_clearing s) \<subseteq> set (lines_clearing s'))"
    using place_piece_grows[OF ok] grows_keeps by blast
  have 3: "\<exists>s'. handle_key ky d s = Some s' \<and>
            (ky \<noteq> K_r \<longrightarrow>
               keeps (grid s) (grid s') \<and> set (lines_clearing s) \<subseteq> set (lines_clearing s')) \<and>
            (ky = K_r \<longrightarrow>
               lines_clearing s' = [] \<and> grid s' = replicate 20 (replicate 10 None))" for ky d
  proof -
    from handle_key_ok[OF ok pr, of ky d] obtain s' where
      h: "handle_key ky d s = Some s'" "ky \<noteq> K_r \<longrightarrow> grows s s'"
         "ky = K_r \<longrightarrow> lines_clearing s' = [] \<and> grid s' = replicate 20 (replicate 10 None)"
      by blast
    with grows_keeps show ?thesis by blast
  qed
  have 4: "\<exists>s1 s'. update_fall fadd dt d s = Some s1 \<and> update fadd dt d s = Some s' \<and>
            (game_over s \<or> paused s \<or> \<not> compacts fadd dt s1 \<longrightarrow>
               keeps (grid s) (grid s') \<and> set (lines_clearing s) \<subseteq> set (lines_clearing s')) \<and>
            (\<not> game_over s \<and> \<not> paused s \<and> compacts fadd dt s1 \<longrightarrow> lines_clearing s' = [])"
    for fadd dt d
  proof (cases "game_over s \<or> paused s")
    case True
    from update_ok[OF ok, of fadd dt d] obtain s1 s' where
      "update fadd dt d s = Some s'" "update_fall fadd dt d s = Some s1" "grows s s'"
      using True by blast
    then show ?thesis using True grows_keeps by blast
  next
    case False
    then have ng: "\<not> game_over s" "\<not> paused s" by auto
    from update_parts[OF ok ng, of fadd dt d] obtain s1 s2 s' where
      u: "update_fall fadd dt d s = Some s1" "grows s s1" "update fadd dt d s = Some s'"
         "compacts fadd dt s1 \<longrightarrow> lines_clearing s2 = []" "\<not> compacts fadd dt s1 \<longrightarrow> grows s1 s2"
         "grows s2 s'" "lines_clearing s' = lines_clearing s2"
      by blast
    have a: "\<not> compacts fadd dt s1 \<longrightarrow> grows s s'"
      using grows_trans[OF u(2)] grows_trans[OF _ u(6)] u(5) by blast
    have b: "\<not> compacts fadd dt s1 \<longrightarrow>
        keeps (grid s) (grid s') \<and> set (lines_clearing s) \<subseteq> set (lines_clearing s')"
      using a grows_keeps by blast
    have c: "compacts fadd dt s1 \<longrightarrow> lines_clearing s' = []" using u(4,7) by simp
    show ?thesis
      apply (rule exI[of _ s1], rule exI[of _ s'])
      using u(1,3) b c ng by blast
  qed
  show ?thesis
    apply (intro conjI allI)
    subgoal by (rule 1)
    subgoal using 2 by blast
    subgoal by (rule 3)
    subgoal by (rule 4)
    done
qed

text \<open>
  The amended claim C10 at the reachable state with the rows 18 and 19 pending: a hard
  drop from it, and the restart key.
\<close>

theorem pending_rows_stay_full_witness:
  "reachable two_rows_pending \<and> lines_clearing two_rows_pending = [18, 19] \<and>
   length (grid two_rows_pending ! 18) = 10 \<and> length (grid two_rows_pending ! 19) = 10 \<and>
   grid two_rows_pending ! 18 ! 0 \<noteq> None \<and> grid two_rows_pending ! 19 ! 9 \<noteq> None \<and>
   handle_key K_SPACE (draw 3) two_rows_pending = Some stacked \<and>
   lines_clearing stacked = [18, 19] \<and>
   (\<exists>s'. handle_key K_SPACE (draw 3) two_rows_pending = Some s' \<and>
         keeps (grid two_rows_pending) (grid s') \<and>
         set (lines_clearing two_rows_pending) \<subseteq> set (lines_clearing s')) \<and>
   (\<exists>s'. handle_key K_r (draw 0) two_rows_pending = Some s' \<and>
         lines_clearing s' = [] \<and> grid s' = replicate 20 (replicate 10 None))"
proof -
  have l: "lines_clearing two_rows_pending = [18, 19]" "lines_clearing stacked = [18, 19]"
    by (simp_all add: two_rows_pending_def stacked_def)
  note t = pending_rows_stay_full[OF reachable_two_rows_pending]
  from t have a: "\<forall>y\<in>set (lines_clearing two_rows_pending).
       y < 20 \<and> length (grid two_rows_pending ! y) = 10 \<and>
       (\<forall>x<10. grid two_rows_pending ! y ! x \<noteq> None)"
    by (rule conjunct1)
  from t have k: "\<forall>ky d. \<exists>s'. handle_key ky d two_rows_pending = Some s' \<and>
            (ky \<noteq> K_r \<longrightarrow>
               keeps (grid two_rows_pending) (grid s') \<and>
               set (lines_clearing two_rows_pending) \<subseteq> set (lines_clearing s')) \<and>
            (ky = K_r \<longrightarrow>
               lines_clearing s' = [] \<and> grid s' = replicate 20 (replicate 10 None))"
    by (elim conjE)
  from k obtain s' where "handle_key K_SPACE (draw 3) two_rows_pending = Some s' \<and>
            (K_SPACE \<noteq> K_r \<longrightarrow>
               keeps (grid two_rows_pending) (grid s') \<and>
               set (lines_clearing two_rows_pending) \<subseteq> set (lines_clearing s')) \<and>
            (K_SPACE = K_r \<longrightarrow>
               lines_clearing s' = [] \<and> grid s' = replicate 20 (replicate 10 None))"
    by blast
  then have b: "\<exists>s'. handle_key K_SPACE (draw 3) two_rows_pending = Some s' \<and>
         keeps (grid two_rows_pending) (grid s') \<and>
         set (lines_clearing two_rows_pending) \<subseteq> set (lines_clearing s')"
    by auto
  from k obtain s'' where "handle_key K_r (draw 0) two_rows_pending = Some s'' \<and>
            (K_r \<noteq> K_r \<longrightarrow>
               keeps (grid two_rows_pending) (grid s'') \<and>
               set (lines_clearing two_rows_pending) \<subseteq> set (lines_clearing s'')) \<and>
            (K_r = K_r \<longrightarrow>
               lines_clearing s'' = [] \<and> grid s'' = replicate 20 (replicate 10 None))"
    by blast
  then have r: "\<exists>s'. handle_key K_r (draw 0) two_rows_pending = Some s' \<and>
         lines_clearing s' = [] \<and> grid s' = replicate 20 (replicate 10 None)"
    by auto
  from a l(1) have c: "length (grid two_rows_pending ! 18) = 10"
    "length (grid two_rows_pending ! 19) = 10"
    "grid two_rows_pending ! 18 ! 0 \<noteq> None" "grid two_rows_pending ! 19 ! 9 \<noteq> None"
    by simp_all
  from reachable_two_rows_pending l c drop_on_pending b r show ?thesis by simp
qed

text \<open>
  Claim C10 as stated fails. With the rows 18 and 19 pending and a square standing on
  them, the restart key returns the constructor's state: the full rows and the square
  are gone and no row is pending, yet no compaction has run (the score and the count of
  cleared lines are 0).
\<close>

theorem restart_empties_pending_rows:
  "reachable stacked \<and>
   lines_clearing stacked = [18, 19] \<and>
   grid stacked ! 18 ! 0 = Some YELLOW \<and>
   grid stacked ! 16 ! 4 = Some YELLOW \<and>
   handle_key K_r (draw 0) stacked = Some restarted \<and>
   grid restarted = replicate 20 (replicate 10 None) \<and>
   grid restarted ! 18 ! 0 = None \<and>
   grid restarted ! 16 ! 4 = None \<and>
   lines_clearing restarted = [] \<and>
   score restarted = 0 \<and>
   lines_cleared restarted = 0"
proof -
  have 1: "lines_clearing stacked = [18, 19]" by (simp add: stacked_def two_rows_pending_def)
  have 2: "grid stacked ! 18 ! 0 = Some YELLOW" by code_simp
  have 3: "grid stacked ! 16 ! 4 = Some YELLOW" by code_simp
  have 4: "handle_key K_r (draw 0) stacked = Some restarted"
    by (simp add: restart_key init_two_bars)
  have 5: "grid restarted = replicate 20 (replicate 10 None)" "grid restarted ! 18 ! 0 = None"
    "grid restarted ! 16 ! 4 = None" "lines_clearing restarted = []" "score restarted = 0"
    "lines_cleared restarted = 0"
    by (simp_all add: restarted_def fresh_def)
  from reachable_stacked 1 2 3 4 5 show ?thesis by blast
qed

end
